theory Spec2Isabelle
  imports Complex_Main
begin

section \<open>Arrays\<close>

text \<open>
  A NumPy array is its shape and its elements in C (row-major) order. Every array that
  NumPy builds has as many elements as its shape says (\<open>wf_array\<close>).
\<close>

record 'a ndarray =
  shape :: "nat list"
  data :: "'a list"

definition wf_array :: "'a ndarray \<Rightarrow> bool" where
  "wf_array a \<longleftrightarrow> length (data a) = prod_list (shape a)"

text \<open>\<open>np.ravel_multi_index\<close>: the row-major offset of a multi-index in a shape.\<close>

fun ravel_multi_index :: "nat list \<Rightarrow> nat list \<Rightarrow> nat" where
  "ravel_multi_index (i # js) (n # ns) = i * prod_list ns + ravel_multi_index js ns"
| "ravel_multi_index _ _ = 0"

text \<open>\<open>np.ndindex\<close>: all multi-indices of a shape, the last axis running fastest.\<close>

fun ndindex :: "nat list \<Rightarrow> nat list list" where
  "ndindex [] = [[]]"
| "ndindex (n # ns) = concat (map (\<lambda>i. map ((#) i) (ndindex ns)) [0..<n])"

definition item :: "'a ndarray \<Rightarrow> nat list \<Rightarrow> 'a" where
  "item a idx = data a ! ravel_multi_index idx (shape a)"

text \<open>The array of a given shape whose element at \<open>idx\<close> is \<open>f idx\<close>.\<close>

definition fromfunction :: "nat list \<Rightarrow> (nat list \<Rightarrow> 'a) \<Rightarrow> 'a ndarray" where
  "fromfunction s f = \<lparr>shape = s, data = map f (ndindex s)\<rparr>"

text \<open>The rows of a two-dimensional array.\<close>

definition rows :: "'a ndarray \<Rightarrow> 'a list list" where
  "rows a = (case shape a of
               [n, d] \<Rightarrow> map (\<lambda>i. take d (drop (i * d) (data a))) [0..<n]
             | _ \<Rightarrow> [])"

text \<open>
  The exceptions of the pipeline. All but \<open>IndexError\<close> and \<open>ShapeMismatchError\<close> are
  NumPy's and SciPy's \<open>ValueError\<close>, told apart by the operation that raises:
  broadcasting, an integer to a negative integer power, \<open>reshape\<close>, \<open>np.stack\<close>,
  \<open>scipy.signal.convolve\<close>.
  \<open>NotTwoDimensional\<close> marks an argument outside the documented parameter types
  (a timeseries or a powers array that is not a matrix), which the model does not follow.
  In the model with a store, \<open>TypeError\<close> is NumPy's refusal to divide an integer array in
  place, and \<open>OutsideModel\<close> marks a store that the model does not follow (a reference
  to no buffer, a timeseries that is not a finite float array, negative bin counts).
\<close>

datatype error = BroadcastError | NegativePowerError | ReshapeError | StackError
  | DimensionError | IndexError | ShapeMismatchError | NotTwoDimensional | TypeError
  | OutsideModel

text \<open>\<open>a.reshape(*newshape)\<close>: the sizes must agree.\<close>

definition reshape :: "'a ndarray \<Rightarrow> nat list \<Rightarrow> error + 'a ndarray" where
  "reshape a newshape =
     (if prod_list newshape = length (data a)
      then Inr \<lparr>shape = newshape, data = data a\<rparr> else Inl ReshapeError)"

text \<open>\<open>a.reshape(-1, la)\<close>: the row count is inferred; NumPy refuses \<open>la = 0\<close>.\<close>

definition reshape_infer :: "'a ndarray \<Rightarrow> nat \<Rightarrow> error + 'a ndarray" where
  "reshape_infer a la =
     (if la = 0 \<or> length (data a) mod la \<noteq> 0 then Inl ReshapeError
      else Inr \<lparr>shape = [length (data a) div la, la], data = data a\<rparr>)"

section \<open>The mesh generator\<close>

text \<open>
  \<^verbatim>\<open>
  def cartesian_product(arrays):
      la = len(arrays)
      arr = np.empty([len(a) for a in arrays] + [la], dtype=np.float64)
      for i, a in enumerate(np.ix_(*arrays)):
          arr[..., i] = a
      return arr.reshape(-1, la)
  \<close>
  \<open>np.ix_\<close> reshapes array \<open>i\<close> to extent 1 on every axis but axis \<open>i\<close>, so the loop
  stores \<open>arrays[i][idx[i]]\<close> at \<open>arr[idx, i]\<close>.
\<close>

definition cartesian_product :: "real list list \<Rightarrow> error + real ndarray" where
  "cartesian_product arrays =
     (let la = length arrays;
          arr = fromfunction (map length arrays @ [la])
                  (\<lambda>idx. arrays ! last idx ! (idx ! last idx))
      in reshape_infer arr la)"

section \<open>Floating-point values\<close>

text \<open>
  A \<open>float64\<close> is modelled without rounding and without overflow: \<open>Fin x\<close> is the finite
  number \<open>x\<close> taken as a real, and \<open>NonFin\<close> stands for \<open>nan\<close>, \<open>inf\<close> and \<open>-inf\<close>, which
  NumPy produces without raising (a division by zero, zero to a negative power). A sum
  or a product with a non-finite operand is non-finite (\<open>inf * 0\<close> and \<open>inf - inf\<close> are
  \<open>nan\<close>). The arguments of the estimator (the timeseries and what the kernel returns)
  are finite, so they are reals.
\<close>

datatype f64 = Fin real | NonFin

fun fadd :: "f64 \<Rightarrow> f64 \<Rightarrow> f64" where
  "fadd (Fin x) (Fin y) = Fin (x + y)"
| "fadd _ _ = NonFin"

fun fmul :: "f64 \<Rightarrow> f64 \<Rightarrow> f64" where
  "fmul (Fin x) (Fin y) = Fin (x * y)"
| "fmul _ _ = NonFin"

text \<open>Division by a finite number: \<open>x / 0\<close> is \<open>inf\<close>, \<open>-inf\<close> or \<open>nan\<close>, never an exception.\<close>

fun fdiv :: "f64 \<Rightarrow> real \<Rightarrow> f64" where
  "fdiv (Fin x) y = (if y = 0 then NonFin else Fin (x / y))"
| "fdiv NonFin y = NonFin"

text \<open>\<open>np.power\<close> of a float by an integer: \<open>0.0 ** -1\<close> is \<open>inf\<close>, and \<open>x ** 0\<close> is 1.\<close>

definition fpow :: "real \<Rightarrow> int \<Rightarrow> f64" where
  "fpow x p = (if 0 \<le> p then Fin (x ^ nat p)
               else if x = 0 then NonFin else Fin (1 / x ^ nat (- p)))"

definition fsum :: "f64 list \<Rightarrow> f64" where
  "fsum xs = foldl fadd (Fin 0) xs"

definition fprod :: "f64 list \<Rightarrow> f64" where
  "fprod xs = foldl fmul (Fin 1) xs"

section \<open>The NumPy operations of the estimator\<close>

text \<open>\<open>np.diff(a, axis=0)\<close> of a matrix: row \<open>i + 1\<close> minus row \<open>i\<close>.\<close>

definition diff_axis0 :: "real ndarray \<Rightarrow> error + real ndarray" where
  "diff_axis0 a =
     (case shape a of
        [n, d] \<Rightarrow> Inr (fromfunction [n - 1, d]
                        (\<lambda>idx. item a [idx ! 0 + 1, idx ! 1] - item a [idx ! 0, idx ! 1]))
      | _ \<Rightarrow> Inl NotTwoDimensional)"

text \<open>Broadcasting of two extents: equal, or one of them 1.\<close>

definition broadcast_dim :: "nat \<Rightarrow> nat \<Rightarrow> error + nat" where
  "broadcast_dim a b =
     (if a = b then Inr a else if a = 1 then Inr b else if b = 1 then Inr a
      else Inl BroadcastError)"

text \<open>
  \<open>np.power(grads[..., None], powers)\<close>: \<open>grads[..., None]\<close> has shape \<open>(n, d, 1)\<close> and
  \<open>powers\<close> has shape \<open>(a, b)\<close>, so NumPy aligns \<open>d\<close> with \<open>a\<close> and 1 with \<open>b\<close>. The
  result has shape \<open>(n, m, b)\<close>, \<open>m\<close> the broadcast of \<open>d\<close> and \<open>a\<close>; an axis of extent 1
  is read at index 0. This is the power of \<open>float64\<close> increments by \<open>int64\<close> powers,
  which raises nothing but the broadcasting error. The power of integer increments, which
  raises at a negative integer power, is \<open>power_int64\<close> below, and the estimator on
  either element type is \<open>kmc_kernel_estimator_typed\<close>.
\<close>

definition power_broadcast :: "real ndarray \<Rightarrow> int ndarray \<Rightarrow> error + f64 ndarray" where
  "power_broadcast grads powers =
     (case (shape grads, shape powers) of
        ([n, d], [a, b]) \<Rightarrow>
          (case broadcast_dim d a of
             Inl e \<Rightarrow> Inl e
           | Inr m \<Rightarrow> Inr (fromfunction [n, m, b]
               (\<lambda>idx. fpow (item grads [idx ! 0, if d = 1 then 0 else idx ! 1])
                            (item powers [if a = 1 then 0 else idx ! 1, idx ! 2]))))
      | _ \<Rightarrow> Inl NotTwoDimensional)"

text \<open>\<open>np.prod(x, axis=1)\<close> of a three-dimensional array.\<close>

definition prod_axis1 :: "f64 ndarray \<Rightarrow> error + f64 ndarray" where
  "prod_axis1 x =
     (case shape x of
        [n, m, b] \<Rightarrow> Inr (fromfunction [n, b]
                           (\<lambda>idx. fprod (map (\<lambda>j. item x [idx ! 0, j, idx ! 1]) [0..<m])))
      | _ \<Rightarrow> Inl DimensionError)"

text \<open>\<open>a[1:, ...]\<close>: all but the first entry along axis 0.\<close>

definition drop_first :: "'a ndarray \<Rightarrow> error + 'a ndarray" where
  "drop_first a =
     (case shape a of
        [] \<Rightarrow> Inl IndexError
      | n # rest \<Rightarrow> Inr \<lparr>shape = (n - 1) # rest, data = drop (prod_list rest) (data a)\<rparr>)"

text \<open>\<open>h[..., p]\<close>: the slice at index \<open>p\<close> of the last axis.\<close>

definition channel :: "'a ndarray \<Rightarrow> nat \<Rightarrow> error + 'a ndarray" where
  "channel h p =
     (if shape h = [] \<or> last (shape h) \<le> p then Inl IndexError
      else Inr (fromfunction (butlast (shape h)) (\<lambda>idx. item h (idx @ [p]))))"

text \<open>\<open>np.stack(xs, axis=-1)\<close>: at least one array, all of one shape.\<close>

definition stack_last :: "'a ndarray list \<Rightarrow> error + 'a ndarray" where
  "stack_last xs =
     (case xs of
        [] \<Rightarrow> Inl StackError
      | x # _ \<Rightarrow>
          if \<exists>y\<in>set xs. shape y \<noteq> shape x then Inl StackError
          else Inr (fromfunction (shape x @ [length xs])
                      (\<lambda>idx. item (xs ! last idx) (butlast idx))))"

section \<open>The convolution\<close>

text \<open>
  \<open>scipy.signal.convolve(in1, in2, mode='same')\<close>. The full linear convolution at
  \<open>n\<close> is the sum of \<open>in1[m] * in2[n - m]\<close> over the \<open>m\<close> for which both indices are
  in range; \<open>same\<close> returns the part of it that has the shape of \<open>in1\<close>, centred: it
  starts at \<open>(s2 - 1) // 2\<close> on an axis where \<open>in2\<close> has extent \<open>s2\<close>. The arrays must
  have the same number of axes. SciPy chooses between a direct sum and an FFT; on finite
  values they agree up to rounding, and the model is the direct sum. Arrays with an axis
  of extent 0 are not followed.
\<close>

definition full_convolution_at :: "f64 ndarray \<Rightarrow> f64 ndarray \<Rightarrow> nat list \<Rightarrow> f64" where
  "full_convolution_at in1 in2 n =
     fsum (map (\<lambda>m. fmul (item in1 m) (item in2 (map2 (-) n m)))
            (filter (\<lambda>m. list_all2 (\<le>) m n \<and> list_all2 (<) (map2 (-) n m) (shape in2))
               (ndindex (shape in1))))"

definition convolve_same :: "f64 ndarray \<Rightarrow> f64 ndarray \<Rightarrow> error + f64 ndarray" where
  "convolve_same in1 in2 =
     (if length (shape in1) \<noteq> length (shape in2) then Inl DimensionError
      else Inr (fromfunction (shape in1)
                  (\<lambda>n. full_convolution_at in1 in2
                         (map2 (+) n (map (\<lambda>s. (s - 1) div 2) (shape in2))))))"

section \<open>The histogram builder\<close>

text \<open>
  Modelled from the spec: \<open>histogramdd\<close> of the repository's module \<open>binning\<close>, which
  the estimator imports and which is not among the sources. The spec (sections 3 and 4.1)
  gives: the edges of a dimension are \<open>bins[d] + 1\<close> boundaries, strictly increasing,
  determined once from the data range and shared by all channels; a sample on the upper
  boundary goes to the last bin; a cell holds the sum of the weights of the samples that
  fall in it, scaled by 1 / (number of samples * cell volume); a sample whose dimension
  is not the length of \<open>bins\<close> is a dimensionality mismatch. Where the spec is silent the
  model follows NumPy's \<open>histogramdd\<close>: equal-width bins, the range \<open>(0, 1)\<close> for no
  sample, a range widened by one half on each side when all samples agree, and one row
  of weights per sample.
\<close>

definition outer_edges :: "real list \<Rightarrow> real \<times> real" where
  "outer_edges xs =
     (case xs of
        [] \<Rightarrow> (0, 1)
      | x # r \<Rightarrow> (let lo = fold min r x; hi = fold max r x
                  in if lo = hi then (lo - 1 / 2, hi + 1 / 2) else (lo, hi)))"

definition linspace :: "real \<times> real \<Rightarrow> nat \<Rightarrow> real list" where
  "linspace r b = map (\<lambda>j. fst r + (snd r - fst r) * real j / real b) [0..<b + 1]"

text \<open>The bin of \<open>x\<close>: the number of inner boundaries at or below \<open>x\<close>.\<close>

definition bin_of :: "real list \<Rightarrow> real \<Rightarrow> nat" where
  "bin_of es x = length (filter (\<lambda>e. e \<le> x) (butlast (tl es)))"

definition column :: "'a ndarray \<Rightarrow> nat \<Rightarrow> 'a list" where
  "column a d = map (\<lambda>i. item a [i, d]) [0..<hd (shape a)]"

definition cell_volume :: "real list list \<Rightarrow> real" where
  "cell_volume edges = prod_list (map (\<lambda>es. (last es - hd es) / real (length es - 1)) edges)"

definition histogramdd ::
  "real ndarray \<Rightarrow> nat list \<Rightarrow> f64 ndarray \<Rightarrow> error + (f64 ndarray \<times> real list list)" where
  "histogramdd sample bins weights =
     (case (shape sample, shape weights) of
        ([n, d], [n', k]) \<Rightarrow>
          if d \<noteq> length bins \<or> n' \<noteq> n then Inl ShapeMismatchError
          else
            (let edges = map (\<lambda>j. linspace (outer_edges (column sample j)) (bins ! j)) [0..<d];
                 hist = fromfunction (bins @ [k])
                   (\<lambda>idx. fdiv
                      (fsum (map (\<lambda>i. item weights [i, last idx])
                         (filter (\<lambda>i. map2 bin_of edges (rows sample ! i) = butlast idx)
                            [0..<n])))
                      (real n * cell_volume edges))
             in Inr (hist, edges))
      | _ \<Rightarrow> Inl ShapeMismatchError)"

section \<open>The estimator\<close>

text \<open>
  \<^verbatim>\<open>
  grads = np.diff(timeseries, axis=0)
  weights = np.prod(np.power(grads[..., None], powers), axis=1)
  \<close>
\<close>

definition kmc_weights :: "real ndarray \<Rightarrow> int ndarray \<Rightarrow> error + f64 ndarray" where
  "kmc_weights timeseries powers =
     (case diff_axis0 timeseries of
        Inl e \<Rightarrow> Inl e
      | Inr grads \<Rightarrow>
          (case power_broadcast grads powers of
             Inl e \<Rightarrow> Inl e
           | Inr pw \<Rightarrow> prod_axis1 pw))"

text \<open>
  \<^verbatim>\<open>
  hist, edges = histogramdd(timeseries[1:, ...], bins=bins,
                            weights=weights, density=True)
  \<close>
\<close>

definition kmc_histogram ::
  "real ndarray \<Rightarrow> nat list \<Rightarrow> int ndarray \<Rightarrow> error + (f64 ndarray \<times> real list list)" where
  "kmc_histogram timeseries bins powers =
     (case kmc_weights timeseries powers of
        Inl e \<Rightarrow> Inl e
      | Inr weights \<Rightarrow>
          (case drop_first timeseries of
             Inl e \<Rightarrow> Inl e
           | Inr sample \<Rightarrow> histogramdd sample bins weights))"

text \<open>\<open>kernel_ /= np.sum(kernel_)\<close>: no test of the sum, a zero sum divides all the same.\<close>

definition normalise :: "real ndarray \<Rightarrow> f64 ndarray" where
  "normalise k =
     \<lparr>shape = shape k, data = map (\<lambda>x. fdiv (Fin x) (sum_list (data k))) (data k)\<rparr>"

text \<open>
  \<^verbatim>\<open>
  mesh = cartesian_product(edges)
  kernel_ = kernel(mesh, bw=bw).reshape(*(edge.size for edge in edges))
  kernel_ /= np.sum(kernel_)
  \<close>
  The caller's kernel is the parameter \<open>kernel_fn\<close>.
\<close>

definition kmc_kernel ::
  "real list list \<Rightarrow> (real ndarray \<Rightarrow> real \<Rightarrow> real ndarray) \<Rightarrow> real \<Rightarrow> error + f64 ndarray" where
  "kmc_kernel edges kernel_fn bw =
     (case cartesian_product edges of
        Inl e \<Rightarrow> Inl e
      | Inr mesh \<Rightarrow>
          (case reshape (kernel_fn mesh bw) (map length edges) of
             Inl e \<Rightarrow> Inl e
           | Inr kernel' \<Rightarrow> Inr (normalise kernel')))"

text \<open>
  \<^verbatim>\<open>
  for p in range(powers.shape[1]):
      kmc.append(convolve(kernel_, hist[..., p], mode='same'))
  \<close>
\<close>

fun convolve_channels ::
  "f64 ndarray \<Rightarrow> f64 ndarray \<Rightarrow> nat list \<Rightarrow> error + f64 ndarray list" where
  "convolve_channels kernel' hist [] = Inr []"
| "convolve_channels kernel' hist (p # ps) =
     (case channel hist p of
        Inl e \<Rightarrow> Inl e
      | Inr h \<Rightarrow>
          (case convolve_same kernel' h of
             Inl e \<Rightarrow> Inl e
           | Inr c \<Rightarrow>
               (case convolve_channels kernel' hist ps of
                  Inl e \<Rightarrow> Inl e
                | Inr cs \<Rightarrow> Inr (c # cs))))"

text \<open>The estimator: the four steps in the order of the source, then \<open>np.stack\<close>.\<close>

definition kmc_kernel_estimator ::
  "real ndarray \<Rightarrow> nat list \<Rightarrow> (real ndarray \<Rightarrow> real \<Rightarrow> real ndarray) \<Rightarrow> real \<Rightarrow> int ndarray
   \<Rightarrow> error + (f64 ndarray \<times> real list list)" where
  "kmc_kernel_estimator timeseries bins kernel_fn bw powers =
     (case kmc_histogram timeseries bins powers of
        Inl e \<Rightarrow> Inl e
      | Inr (hist, edges) \<Rightarrow>
          (case kmc_kernel edges kernel_fn bw of
             Inl e \<Rightarrow> Inl e
           | Inr kernel' \<Rightarrow>
               (case convolve_channels kernel' hist [0..<shape powers ! 1] of
                  Inl e \<Rightarrow> Inl e
                | Inr kmc \<Rightarrow>
                    (case stack_last kmc of
                       Inl e \<Rightarrow> Inl e
                     | Inr res \<Rightarrow> Inr (res, edges)))))"

section \<open>Linear convolution with zero padding\<close>

text \<open>
  The convolution as the spec words it (section 4.4): the second array is read as
  zero outside its domain, and the sum runs over every index of the first. It is
  compared with \<open>full_convolution_at\<close>, the sum over the overlapping indices only.
\<close>

definition zero_padded :: "f64 ndarray \<Rightarrow> int list \<Rightarrow> f64" where
  "zero_padded a idx =
     (if list_all2 (\<lambda>i s. 0 \<le> i \<and> i < int s) idx (shape a) then item a (map nat idx)
      else Fin 0)"

definition zero_padded_convolution_at :: "f64 ndarray \<Rightarrow> f64 ndarray \<Rightarrow> int list \<Rightarrow> f64" where
  "zero_padded_convolution_at in1 in2 n =
     fsum (map (\<lambda>m. fmul (item in1 m) (zero_padded in2 (map2 (\<lambda>a b. a - int b) n m)))
            (ndindex (shape in1)))"

section \<open>Valid inputs\<close>

text \<open>The mesh that the estimator hands to the kernel.\<close>

definition kmc_mesh :: "real ndarray \<Rightarrow> nat list \<Rightarrow> int ndarray \<Rightarrow> error + real ndarray" where
  "kmc_mesh timeseries bins powers =
     (case kmc_histogram timeseries bins powers of
        Inl e \<Rightarrow> Inl e
      | Inr (hist, edges) \<Rightarrow> cartesian_product edges)"

text \<open>
  The kernel's side of the interface: for a mesh of \<open>M\<close> rows it returns \<open>M\<close> scalars
  (\<open>kernel_sized\<close>); \<open>kernel_sum\<close> is the sum of what it returns.
\<close>

definition kernel_sized ::
  "real ndarray \<Rightarrow> nat list \<Rightarrow> (real ndarray \<Rightarrow> real \<Rightarrow> real ndarray) \<Rightarrow> real \<Rightarrow> int ndarray
   \<Rightarrow> bool" where
  "kernel_sized timeseries bins kernel_fn bw powers =
     (case kmc_mesh timeseries bins powers of
        Inl e \<Rightarrow> False
      | Inr mesh \<Rightarrow> length (data (kernel_fn mesh bw)) = hd (shape mesh))"

definition kernel_sum ::
  "real ndarray \<Rightarrow> nat list \<Rightarrow> (real ndarray \<Rightarrow> real \<Rightarrow> real ndarray) \<Rightarrow> real \<Rightarrow> int ndarray
   \<Rightarrow> real" where
  "kernel_sum timeseries bins kernel_fn bw powers =
     (case kmc_mesh timeseries bins powers of
        Inl e \<Rightarrow> 0
      | Inr mesh \<Rightarrow> sum_list (data (kernel_fn mesh bw)))"

text \<open>
  The shapes of a valid input: a timeseries of shape \<open>(N, D)\<close> with \<open>N \<ge> 2\<close> and
  \<open>D \<ge> 1\<close>, one positive bin count per dimension, and a powers matrix with \<open>D\<close> rows
  and at least one column.
\<close>

definition valid_shapes :: "real ndarray \<Rightarrow> nat list \<Rightarrow> int ndarray \<Rightarrow> bool" where
  "valid_shapes timeseries bins powers \<longleftrightarrow>
     wf_array timeseries \<and> length (shape timeseries) = 2
   \<and> 2 \<le> shape timeseries ! 0 \<and> 1 \<le> shape timeseries ! 1
   \<and> length bins = shape timeseries ! 1 \<and> list_all (\<lambda>b. 1 \<le> b) bins
   \<and> wf_array powers \<and> length (shape powers) = 2
   \<and> shape powers ! 0 = shape timeseries ! 1 \<and> 1 \<le> shape powers ! 1"

section \<open>Integer and float arguments\<close>

text \<open>
  NumPy computes with the element type of the arrays it is given. Two element types are
  followed here, the ones NumPy gives to an array of Python floats and to an array of
  Python integers: \<open>float64\<close> and \<open>int64\<close>. The definitions above are the estimator on a
  \<open>float64\<close> timeseries and an \<open>int64\<close> powers matrix; the definitions of this section
  are the estimator on either type for either argument.
\<close>

datatype typed_array = F64 "real ndarray" | I64 "int ndarray"

fun shape_of :: "typed_array \<Rightarrow> nat list" where
  "shape_of (F64 a) = shape a"
| "shape_of (I64 a) = shape a"

text \<open>The conversion to \<open>float64\<close>, taken as exact.\<close>

definition to_float :: "int ndarray \<Rightarrow> real ndarray" where
  "to_float a = \<lparr>shape = shape a, data = map real_of_int (data a)\<rparr>"

fun as_float :: "typed_array \<Rightarrow> real ndarray" where
  "as_float (F64 a) = a"
| "as_float (I64 a) = to_float a"

text \<open>Arithmetic on \<open>int64\<close> wraps around.\<close>

definition wrap64 :: "int \<Rightarrow> int" where
  "wrap64 x = (x + 2 ^ 63) mod 2 ^ 64 - 2 ^ 63"

text \<open>\<open>np.diff(a, axis=0)\<close> of an integer matrix.\<close>

definition diff_axis0_int64 :: "int ndarray \<Rightarrow> error + int ndarray" where
  "diff_axis0_int64 a =
     (case shape a of
        [n, d] \<Rightarrow> Inr (fromfunction [n - 1, d]
                        (\<lambda>idx. wrap64 (item a [idx ! 0 + 1, idx ! 1] - item a [idx ! 0, idx ! 1])))
      | _ \<Rightarrow> Inl NotTwoDimensional)"

text \<open>
  The broadcasting of \<open>np.power(grads[..., None], powers)\<close>, as in \<open>power_broadcast\<close>,
  for any operation \<open>f\<close> on a base and an exponent.
\<close>

definition broadcast_power ::
  "('a \<Rightarrow> 'b \<Rightarrow> 'c) \<Rightarrow> 'a ndarray \<Rightarrow> 'b ndarray \<Rightarrow> error + 'c ndarray" where
  "broadcast_power f grads powers =
     (case (shape grads, shape powers) of
        ([n, d], [a, b]) \<Rightarrow>
          (case broadcast_dim d a of
             Inl e \<Rightarrow> Inl e
           | Inr m \<Rightarrow> Inr (fromfunction [n, m, b]
               (\<lambda>idx. f (item grads [idx ! 0, if d = 1 then 0 else idx ! 1])
                         (item powers [if a = 1 then 0 else idx ! 1, idx ! 2]))))
      | _ \<Rightarrow> Inl NotTwoDimensional)"

text \<open>
  \<open>np.power\<close> of a float by a float: a whole exponent is the integer power; \<open>0.0\<close> to a
  positive power is 0 and to a negative power \<open>inf\<close>; a negative number to a power that
  is not whole is \<open>nan\<close>. No case raises.
\<close>

definition fpowr :: "real \<Rightarrow> real \<Rightarrow> f64" where
  "fpowr x y =
     (if y = of_int \<lfloor>y\<rfloor> then fpow x \<lfloor>y\<rfloor>
      else if 0 < x then Fin (x powr y)
      else if x = 0 \<and> 0 < y then Fin 0
      else NonFin)"

text \<open>
  \<open>np.power\<close> of an integer array by an integer array. The shapes are broadcast first;
  then the loop over the pairs of a base and an exponent raises \<open>ValueError\<close>
  (\<open>Integers to negative integer powers are not allowed\<close>) at a negative exponent,
  whatever the base; a loop over no pair raises nothing.
\<close>

definition power_int64 :: "int ndarray \<Rightarrow> int ndarray \<Rightarrow> error + int ndarray" where
  "power_int64 grads powers =
     (case broadcast_power Pair grads powers of
        Inl e \<Rightarrow> Inl e
      | Inr pairs \<Rightarrow>
          if \<exists>gp\<in>set (data pairs). snd gp < 0 then Inl NegativePowerError
          else Inr \<lparr>shape = shape pairs,
                    data = map (\<lambda>gp. wrap64 (fst gp ^ nat (snd gp))) (data pairs)\<rparr>)"

text \<open>\<open>np.prod(x, axis=1)\<close> of a three-dimensional integer array.\<close>

definition prod_axis1_int64 :: "int ndarray \<Rightarrow> error + int ndarray" where
  "prod_axis1_int64 x =
     (case shape x of
        [n, m, b] \<Rightarrow> Inr (fromfunction [n, b]
                           (\<lambda>idx. foldl (\<lambda>p q. wrap64 (p * q)) 1
                                    (map (\<lambda>j. item x [idx ! 0, j, idx ! 1]) [0..<m])))
      | _ \<Rightarrow> Inl DimensionError)"

text \<open>
  \<^verbatim>\<open>
  grads = np.diff(timeseries, axis=0)
  weights = np.prod(np.power(grads[..., None], powers), axis=1)
  \<close>
  by the element types of \<open>timeseries\<close> and \<open>powers\<close>. If one of the two is \<open>float64\<close>,
  \<open>np.power\<close> converts the other and computes in \<open>float64\<close>; integer increments to
  integer powers are computed in \<open>int64\<close>, and the integer weights are given here as the
  floats that the histogram makes of them.
\<close>

fun kmc_weights_typed :: "typed_array \<Rightarrow> typed_array \<Rightarrow> error + f64 ndarray" where
  "kmc_weights_typed (F64 ts) (I64 pw) = kmc_weights ts pw"
| "kmc_weights_typed (F64 ts) (F64 pw) =
     (case diff_axis0 ts of
        Inl e \<Rightarrow> Inl e
      | Inr grads \<Rightarrow>
          (case broadcast_power fpowr grads pw of
             Inl e \<Rightarrow> Inl e
           | Inr x \<Rightarrow> prod_axis1 x))"
| "kmc_weights_typed (I64 ts) (F64 pw) =
     (case diff_axis0_int64 ts of
        Inl e \<Rightarrow> Inl e
      | Inr grads \<Rightarrow>
          (case broadcast_power fpowr (to_float grads) pw of
             Inl e \<Rightarrow> Inl e
           | Inr x \<Rightarrow> prod_axis1 x))"
| "kmc_weights_typed (I64 ts) (I64 pw) =
     (case diff_axis0_int64 ts of
        Inl e \<Rightarrow> Inl e
      | Inr grads \<Rightarrow>
          (case power_int64 grads pw of
             Inl e \<Rightarrow> Inl e
           | Inr x \<Rightarrow>
               (case prod_axis1_int64 x of
                  Inl e \<Rightarrow> Inl e
                | Inr w \<Rightarrow> Inr \<lparr>shape = shape w, data = map (\<lambda>v. Fin (real_of_int v)) (data w)\<rparr>)))"

text \<open>
  \<^verbatim>\<open>
  hist, edges = histogramdd(timeseries[1:, ...], bins=bins,
                            weights=weights, density=True)
  \<close>
  The samples are binned by their values, whatever their element type.
\<close>

definition kmc_histogram_typed ::
  "typed_array \<Rightarrow> nat list \<Rightarrow> typed_array \<Rightarrow> error + (f64 ndarray \<times> real list list)" where
  "kmc_histogram_typed timeseries bins powers =
     (case kmc_weights_typed timeseries powers of
        Inl e \<Rightarrow> Inl e
      | Inr weights \<Rightarrow>
          (case drop_first (as_float timeseries) of
             Inl e \<Rightarrow> Inl e
           | Inr sample \<Rightarrow> histogramdd sample bins weights))"

text \<open>The estimator on either element type: the steps of \<open>kmc_kernel_estimator\<close>.\<close>

definition kmc_kernel_estimator_typed ::
  "typed_array \<Rightarrow> nat list \<Rightarrow> (real ndarray \<Rightarrow> real \<Rightarrow> real ndarray) \<Rightarrow> real \<Rightarrow> typed_array
   \<Rightarrow> error + (f64 ndarray \<times> real list list)" where
  "kmc_kernel_estimator_typed timeseries bins kernel_fn bw powers =
     (case kmc_histogram_typed timeseries bins powers of
        Inl e \<Rightarrow> Inl e
      | Inr (hist, edges) \<Rightarrow>
          (case kmc_kernel edges kernel_fn bw of
             Inl e \<Rightarrow> Inl e
           | Inr kernel' \<Rightarrow>
               (case convolve_channels kernel' hist [0..<shape_of powers ! 1] of
                  Inl e \<Rightarrow> Inl e
                | Inr kmc \<Rightarrow>
                    (case stack_last kmc of
                       Inl e \<Rightarrow> Inl e
                     | Inr res \<Rightarrow> Inr (res, edges)))))"

text \<open>
  The kernel's side of the interface, as in \<open>kernel_sized\<close>: for the mesh that the
  estimator hands to it, the kernel returns one scalar per row.
\<close>

definition kernel_sized_typed ::
  "typed_array \<Rightarrow> nat list \<Rightarrow> (real ndarray \<Rightarrow> real \<Rightarrow> real ndarray) \<Rightarrow> real \<Rightarrow> typed_array
   \<Rightarrow> bool" where
  "kernel_sized_typed timeseries bins kernel_fn bw powers =
     (case kmc_histogram_typed timeseries bins powers of
        Inl e \<Rightarrow> False
      | Inr (hist, edges) \<Rightarrow>
          (case cartesian_product edges of
             Inl e \<Rightarrow> False
           | Inr mesh \<Rightarrow> length (data (kernel_fn mesh bw)) = hd (shape mesh)))"

text \<open>
  The one input on which the weights of integer arguments are not computed though the
  shapes broadcast: an integer timeseries with an increment (two samples, one dimension
  at least) and an integer powers matrix with a negative entry.
\<close>

fun negative_integer_power :: "typed_array \<Rightarrow> typed_array \<Rightarrow> bool" where
  "negative_integer_power (I64 ts) (I64 pw) \<longleftrightarrow>
     2 \<le> shape ts ! 0 \<and> 1 \<le> shape ts ! 1
   \<and> (\<exists>a\<in>set [0..<shape pw ! 0]. \<exists>k\<in>set [0..<shape pw ! 1]. item pw [a, k] < 0)"
| "negative_integer_power _ _ \<longleftrightarrow> False"

section \<open>The estimator on a store\<close>

text \<open>
  For the effect of a call on the caller's arrays, the arrays that are shared live in a
  store: a list of buffers, an array being a reference to a buffer with a shape (a whole,
  contiguous buffer). The caller's \<open>timeseries\<close> is a float array, \<open>bins\<close> and \<open>powers\<close> are
  integer arrays. The arrays that the estimator builds and hands to nobody (the increments,
  the weights, the histogram, the convolutions) stay values: NumPy allocates each afresh.
  The mesh is allocated, since the kernel receives it; the kernel is any function on the
  store that returns a reference; \<open>reshape\<close> of what it returns is a view of the same
  buffer, and \<open>kernel_ /= np.sum(kernel_)\<close> writes that buffer in place; the stacked result
  is allocated last, and the edges are returned as values. \<open>histogramdd\<close> writes to none
  of its arguments (the spec, section 5: no shared mutable state).
\<close>

datatype buffer = FloatBuf "f64 list" | IntBuf "int list"

type_synonym heap = "buffer list"

record array_ref =
  buf :: nat
  ashape :: "nat list"

fun real_of :: "f64 \<Rightarrow> real" where
  "real_of (Fin x) = x"
| "real_of NonFin = 0"

definition read_reals :: "heap \<Rightarrow> array_ref \<Rightarrow> real ndarray option" where
  "read_reals h r =
     (if length h \<le> buf r then None
      else (case h ! buf r of
              FloatBuf xs \<Rightarrow> if NonFin \<in> set xs then None
                           else Some \<lparr>shape = ashape r, data = map real_of xs\<rparr>
            | IntBuf xs \<Rightarrow> None))"

definition read_ints :: "heap \<Rightarrow> array_ref \<Rightarrow> int ndarray option" where
  "read_ints h r =
     (if length h \<le> buf r then None
      else (case h ! buf r of
              FloatBuf xs \<Rightarrow> None
            | IntBuf xs \<Rightarrow> Some \<lparr>shape = ashape r, data = xs\<rparr>))"

definition read_bins :: "heap \<Rightarrow> array_ref \<Rightarrow> nat list option" where
  "read_bins h r =
     (case read_ints h r of
        None \<Rightarrow> None
      | Some a \<Rightarrow> if list_all (\<lambda>b. 0 \<le> b) (data a) then Some (map nat (data a)) else None)"

definition alloc_floats :: "heap \<Rightarrow> nat list \<Rightarrow> f64 list \<Rightarrow> heap \<times> array_ref" where
  "alloc_floats h s xs = (h @ [FloatBuf xs], \<lparr>buf = length h, ashape = s\<rparr>)"

text \<open>The steps before the kernel is called: the store and the mesh handed to it.\<close>

definition kernel_call ::
  "heap \<Rightarrow> array_ref \<Rightarrow> array_ref \<Rightarrow> array_ref
   \<Rightarrow> error + (heap \<times> array_ref \<times> f64 ndarray \<times> real list list)" where
  "kernel_call h timeseries bins powers =
     (case (read_reals h timeseries, read_bins h bins, read_ints h powers) of
        (Some ts, Some bn, Some pw) \<Rightarrow>
          (case kmc_histogram ts bn pw of
             Inl e \<Rightarrow> Inl e
           | Inr (hist, edges) \<Rightarrow>
               (case cartesian_product edges of
                  Inl e \<Rightarrow> Inl e
                | Inr mesh \<Rightarrow>
                    (case alloc_floats h (shape mesh) (map Fin (data mesh)) of
                       (h1, mesh_ref) \<Rightarrow> Inr (h1, mesh_ref, hist, edges))))
      | _ \<Rightarrow> Inl OutsideModel)"

definition kmc_kernel_estimator_st ::
  "heap \<Rightarrow> array_ref \<Rightarrow> array_ref \<Rightarrow> (heap \<Rightarrow> array_ref \<Rightarrow> real \<Rightarrow> heap \<times> array_ref) \<Rightarrow> real
   \<Rightarrow> array_ref \<Rightarrow> error + (heap \<times> array_ref \<times> real list list)" where
  "kmc_kernel_estimator_st h timeseries bins kernel_st bw powers =
     (case kernel_call h timeseries bins powers of
        Inl e \<Rightarrow> Inl e
      | Inr (h1, mesh_ref, hist, edges) \<Rightarrow>
          (case kernel_st h1 mesh_ref bw of
             (h2, k) \<Rightarrow>
               if length h2 \<le> buf k then Inl OutsideModel
               else (case h2 ! buf k of
                  IntBuf xs \<Rightarrow>
                    if prod_list (map length edges) = length xs then Inl TypeError
                    else Inl ReshapeError
                | FloatBuf xs \<Rightarrow>
                    if NonFin \<in> set xs then Inl OutsideModel
                    else
                      (case reshape \<lparr>shape = ashape k, data = map real_of xs\<rparr>
                              (map length edges) of
                         Inl e \<Rightarrow> Inl e
                       | Inr kernel' \<Rightarrow>
                           (let kn = normalise kernel';
                                h3 = h2[buf k := FloatBuf (data kn)]
                            in case convolve_channels kn hist [0..<ashape powers ! 1] of
                                 Inl e \<Rightarrow> Inl e
                               | Inr kmc \<Rightarrow>
                                   (case stack_last kmc of
                                      Inl e \<Rightarrow> Inl e
                                    | Inr res \<Rightarrow>
                                        (case alloc_floats h3 (shape res) (data res) of
                                           (h4, res_ref) \<Rightarrow> Inr (h4, res_ref, edges))))))))"


text \<open>A kernel that is a function of the mesh and returns a fresh array.\<close>

definition pure_kernel ::
  "(real ndarray \<Rightarrow> real \<Rightarrow> real ndarray) \<Rightarrow> heap \<Rightarrow> array_ref \<Rightarrow> real \<Rightarrow> heap \<times> array_ref" where
  "pure_kernel kernel_fn h mesh_ref bw =
     (case read_reals h mesh_ref of
        None \<Rightarrow> (h, mesh_ref)
      | Some mesh \<Rightarrow>
          alloc_floats h (shape (kernel_fn mesh bw)) (map Fin (data (kernel_fn mesh bw))))"

section \<open>Example kernels\<close>

text \<open>The kernel that weighs every mesh point 1, and the kernel that weighs every one 0.\<close>

definition uniform_kernel :: "real ndarray \<Rightarrow> real \<Rightarrow> real ndarray" where
  "uniform_kernel mesh bw = \<lparr>shape = [hd (shape mesh)], data = map (\<lambda>r. 1) (rows mesh)\<rparr>"

definition zero_kernel :: "real ndarray \<Rightarrow> real \<Rightarrow> real ndarray" where
  "zero_kernel mesh bw = \<lparr>shape = [hd (shape mesh)], data = map (\<lambda>r. 0) (rows mesh)\<rparr>"

section \<open>Index arithmetic\<close>

lemma length_concat_uniform:
  "\<forall>ys\<in>set xss. length ys = m \<Longrightarrow> length (concat xss) = length xss * m"
  by (induction xss) auto

lemma nth_concat_uniform:
  "\<forall>ys\<in>set xss. length ys = m \<Longrightarrow> i < length xss \<Longrightarrow> j < m \<Longrightarrow>
   concat xss ! (i * m + j) = xss ! i ! j"
proof (induction xss arbitrary: i)
  case Nil
  then show ?case by simp
next
  case (Cons ys xss)
  show ?case
  proof (cases i)
    case 0
    with Cons.prems show ?thesis by (simp add: nth_append)
  next
    case (Suc k)
    have "concat (ys # xss) ! (i * m + j) = concat xss ! (k * m + j)"
      using Cons.prems Suc by (simp add: nth_append)
    also have "\<dots> = xss ! k ! j"
      using Cons.prems Suc by (intro Cons.IH) auto
    finally show ?thesis using Suc by simp
  qed
qed

lemma take_drop_concat_uniform:
  "\<forall>ys\<in>set xss. length ys = d \<Longrightarrow> i < length xss \<Longrightarrow>
   take d (drop (i * d) (concat xss)) = xss ! i"
proof (induction xss arbitrary: i)
  case Nil
  then show ?case by simp
next
  case (Cons ys xss)
  show ?case
  proof (cases i)
    case 0
    with Cons.prems show ?thesis by simp
  next
    case (Suc k)
    have "take d (drop (i * d) (concat (ys # xss))) = take d (drop (k * d) (concat xss))"
      using Cons.prems Suc by simp
    also have "\<dots> = xss ! k"
      using Cons.prems Suc by (intro Cons.IH) auto
    finally show ?thesis using Suc by simp
  qed
qed

lemma concat_map_singleton: "concat (map (\<lambda>x. [g x]) xs) = map g xs"
  by (induction xs) auto

lemma concat_map_concat_blocks:
  "concat (map f (concat xss)) = concat (map (\<lambda>xs. concat (map f xs)) xss)"
  by (induction xss) auto

lemma length_ndindex: "length (ndindex s) = prod_list s"
proof (induction s)
  case Nil
  then show ?case by simp
next
  case (Cons n ns)
  have "length (ndindex (n # ns))
        = length (map (\<lambda>i. map ((#) i) (ndindex ns)) [0..<n]) * prod_list ns"
    unfolding ndindex.simps by (rule length_concat_uniform) (auto simp: Cons.IH)
  then show ?case by simp
qed

lemma ravel_less:
  "list_all2 (<) idx s \<Longrightarrow> ravel_multi_index idx s < prod_list s"
proof (induction idx s rule: list_all2_induct)
  case Nil
  then show ?case by simp
next
  case (Cons i js n ns)
  have "i * prod_list ns + ravel_multi_index js ns < i * prod_list ns + prod_list ns"
    using Cons.IH by simp
  also have "\<dots> = Suc i * prod_list ns" by simp
  also have "\<dots> \<le> n * prod_list ns"
    using Cons.hyps(1) by (intro mult_le_mono1) simp
  finally show ?case by simp
qed

lemma ndindex_nth_ravel:
  "list_all2 (<) idx s \<Longrightarrow> ndindex s ! ravel_multi_index idx s = idx"
proof (induction idx s rule: list_all2_induct)
  case Nil
  then show ?case by simp
next
  case (Cons i js n ns)
  let ?xss = "map (\<lambda>i. map ((#) i) (ndindex ns)) [0..<n]"
  have u: "\<forall>ys\<in>set ?xss. length ys = prod_list ns"
    by (auto simp: length_ndindex)
  have j: "ravel_multi_index js ns < prod_list ns"
    using Cons.hyps(2) by (rule ravel_less)
  have "concat ?xss ! (i * prod_list ns + ravel_multi_index js ns)
        = ?xss ! i ! ravel_multi_index js ns"
    using u _ j by (rule nth_concat_uniform) (simp add: Cons.hyps(1))
  also have "\<dots> = i # ndindex ns ! ravel_multi_index js ns"
    using Cons.hyps(1) j by (simp add: length_ndindex)
  finally show ?case using Cons.IH by simp
qed

lemma set_ndindex: "set (ndindex s) = {idx. list_all2 (<) idx s}"
proof (induction s)
  case Nil
  then show ?case by auto
next
  case (Cons n ns)
  show ?case
  proof (intro set_eqI iffI)
    fix idx assume "idx \<in> set (ndindex (n # ns))"
    then show "idx \<in> {idx. list_all2 (<) idx (n # ns)}"
      using Cons.IH by auto
  next
    fix idx assume "idx \<in> {idx. list_all2 (<) idx (n # ns)}"
    then obtain i js where "idx = i # js" "i < n" "list_all2 (<) js ns"
      by (auto simp: list_all2_Cons2)
    then show "idx \<in> set (ndindex (n # ns))"
      using Cons.IH by auto
  qed
qed

lemma ndindex_product_lists: "ndindex s = product_lists (map (\<lambda>n. [0..<n]) s)"
  by (induction s) simp_all

lemma distinct_ndindex: "distinct (ndindex s)"
  unfolding ndindex_product_lists by (rule distinct_product_lists) auto

lemma ndindex_snoc:
  "ndindex (s @ [k]) = concat (map (\<lambda>idx. map (\<lambda>i. idx @ [i]) [0..<k]) (ndindex s))"
proof (induction s)
  case Nil
  show ?case by (simp add: concat_map_singleton)
next
  case (Cons n ns)
  have "ndindex ((n # ns) @ [k]) =
        concat (map (\<lambda>i. map ((#) i) (ndindex (ns @ [k]))) [0..<n])" by simp
  also have "\<dots> = concat (map (\<lambda>i. concat (map (\<lambda>idx. map (\<lambda>j. (i # idx) @ [j]) [0..<k])
                        (ndindex ns))) [0..<n])"
    by (simp add: Cons.IH map_concat comp_def)
  also have "\<dots> = concat (map (\<lambda>idx. map (\<lambda>i. idx @ [i]) [0..<k]) (ndindex (n # ns)))"
    by (simp add: concat_map_concat_blocks comp_def)
  finally show ?case .
qed

lemma rows_concat_uniform:
  assumes "shape a = [length xs, d]" "data a = concat (map g xs)"
    and "\<forall>x\<in>set xs. length (g x) = d"
  shows "rows a = map g xs"
proof -
  have "take d (drop (i * d) (concat (map g xs))) = g (xs ! i)" if "i < length xs" for i
    using take_drop_concat_uniform[of "map g xs" d i] assms(3) that by auto
  then show ?thesis
    using assms(1,2) by (auto simp: rows_def intro!: nth_equalityI)
qed

section \<open>Arrays built from functions\<close>

lemma shape_fromfunction [simp]: "shape (fromfunction s f) = s"
  by (simp add: fromfunction_def)

lemma wf_fromfunction [simp]: "wf_array (fromfunction s f)"
  by (simp add: fromfunction_def wf_array_def length_ndindex)

lemma item_fromfunction:
  "list_all2 (<) idx s \<Longrightarrow> item (fromfunction s f) idx = f idx"
  using ravel_less[of idx s] ndindex_nth_ravel[of idx s]
  by (simp add: item_def fromfunction_def length_ndindex)

lemma fromfunction_cong:
  "(\<And>idx. list_all2 (<) idx s \<Longrightarrow> f idx = g idx) \<Longrightarrow> fromfunction s f = fromfunction s g"
  by (simp add: fromfunction_def set_ndindex)

lemma ravel_ndindex_nth:
  assumes "j < prod_list s"
  shows "ravel_multi_index (ndindex s ! j) s = j"
proof -
  have v: "list_all2 (<) (ndindex s ! j) s"
    using assms set_ndindex[of s] nth_mem[of j "ndindex s"] by (simp add: length_ndindex)
  have "ndindex s ! ravel_multi_index (ndindex s ! j) s = ndindex s ! j"
    using v by (rule ndindex_nth_ravel)
  moreover have "ravel_multi_index (ndindex s ! j) s < length (ndindex s)"
    using ravel_less[OF v] by (simp add: length_ndindex)
  ultimately show ?thesis
    using assms distinct_ndindex[of s] by (simp add: nth_eq_iff_index_eq length_ndindex)
qed

lemma fromfunction_item:
  assumes "wf_array a"
  shows "fromfunction (shape a) (item a) = a"
proof -
  have "map (item a) (ndindex (shape a)) = data a"
    using assms
    by (intro nth_equalityI) (simp_all add: wf_array_def length_ndindex item_def ravel_ndindex_nth)
  then show ?thesis by (simp add: fromfunction_def)
qed

section \<open>The mesh is the Cartesian product, row-major\<close>

lemma product_lists_ndindex:
  "product_lists arrays = map (\<lambda>idx. map2 (!) arrays idx) (ndindex (map length arrays))"
proof (induction arrays)
  case Nil
  then show ?case by simp
next
  case (Cons xs xss)
  have "map (\<lambda>x. map ((#) x) (product_lists xss)) xs
        = map (\<lambda>i. map ((#) (xs ! i)) (product_lists xss)) [0..<length xs]"
    by (rule nth_equalityI) auto
  then show ?case
    by (simp add: Cons.IH map_concat comp_def)
qed

lemma map2_nth_upt:
  "length idx = length arrays \<Longrightarrow>
   map (\<lambda>i. arrays ! i ! (idx ! i)) [0..<length arrays] = map2 (!) arrays idx"
  by (rule nth_equalityI) auto

lemma cartesian_product_data:
  "data (fromfunction (map length arrays @ [length arrays])
           (\<lambda>idx. arrays ! last idx ! (idx ! last idx)))
   = concat (map (\<lambda>idx. map2 (!) arrays idx) (ndindex (map length arrays)))"
proof -
  have "map (\<lambda>i. arrays ! last (idx @ [i]) ! ((idx @ [i]) ! last (idx @ [i])))
          [0..<length arrays]
        = map2 (!) arrays idx"
    if "idx \<in> set (ndindex (map length arrays))" for idx
  proof -
    have len: "length idx = length arrays"
      using that by (auto simp: set_ndindex dest: list_all2_lengthD)
    then have "map (\<lambda>i. arrays ! last (idx @ [i]) ! ((idx @ [i]) ! last (idx @ [i])))
                 [0..<length arrays]
               = map (\<lambda>i. arrays ! i ! (idx ! i)) [0..<length arrays]"
      by (auto simp: nth_append)
    with len show ?thesis by (simp add: map2_nth_upt)
  qed
  then show ?thesis
    by (simp add: fromfunction_def ndindex_snoc map_concat comp_def cong: map_cong)
qed

lemma cartesian_product_rows:
  assumes "arrays \<noteq> []"
  shows "\<exists>m. cartesian_product arrays = Inr m
           \<and> shape m = [prod_list (map length arrays), length arrays]
           \<and> rows m = product_lists arrays \<and> wf_array m"
proof -
  let ?la = "length arrays"
  let ?arr = "fromfunction (map length arrays @ [?la])
                (\<lambda>idx. arrays ! last idx ! (idx ! last idx))"
  have len: "length (data ?arr) = prod_list (map length arrays) * ?la"
    by (simp add: fromfunction_def length_ndindex)
  let ?m = "\<lparr>shape = [prod_list (map length arrays), ?la], data = data ?arr\<rparr>"
  have la: "?la \<noteq> 0" using assms by simp
  have 1: "cartesian_product arrays = Inr ?m"
    using la by (simp add: cartesian_product_def reshape_infer_def Let_def len)
  have "rows ?m = map (\<lambda>idx. map2 (!) arrays idx) (ndindex (map length arrays))"
  proof (rule rows_concat_uniform)
    show "shape ?m = [length (ndindex (map length arrays)), ?la]"
      by (simp add: length_ndindex)
    show "data ?m = concat (map (\<lambda>idx. map2 (!) arrays idx) (ndindex (map length arrays)))"
      using cartesian_product_data by simp
    show "\<forall>idx\<in>set (ndindex (map length arrays)). length (map2 (!) arrays idx) = ?la"
      by (auto simp: set_ndindex dest: list_all2_lengthD)
  qed
  then have 2: "rows ?m = product_lists arrays"
    by (simp add: product_lists_ndindex)
  have 3: "wf_array ?m" using len by (simp add: wf_array_def)
  from 1 2 3 show ?thesis by auto
qed

lemma product_lists_nonempty:
  "(\<forall>a\<in>set arrays. a \<noteq> []) \<Longrightarrow> product_lists arrays \<noteq> []"
  by (induction arrays) (auto)

lemma distinct_cons_blocks:
  assumes "P \<noteq> []" "xs \<noteq> []"
  shows "distinct (concat (map (\<lambda>x. map ((#) x) P) xs)) \<longleftrightarrow> distinct xs \<and> distinct P"
  using assms(2)
proof (induction xs)
  case Nil then show ?case by simp
next
  case (Cons x xs)
  show ?case
  proof (cases "xs = []")
    case True
    then show ?thesis by (simp add: distinct_map inj_on_def)
  next
    case False
    from Cons.IH[OF False] assms(1) show ?thesis
      by (cases P) (auto simp: distinct_map inj_on_def)
  qed
qed

lemma distinct_product_lists_iff:
  assumes "\<forall>a\<in>set arrays. a \<noteq> []"
  shows "distinct (product_lists arrays) \<longleftrightarrow> (\<forall>a\<in>set arrays. distinct a)"
  using assms
proof (induction arrays)
  case Nil
  then show ?case by simp
next
  case (Cons xs xss)
  then have xne: "xs \<noteq> []" and "\<forall>a\<in>set xss. a \<noteq> []" by auto
  then have ne: "product_lists xss \<noteq> []" by (intro product_lists_nonempty)
  from Cons distinct_cons_blocks[OF ne xne] show ?case by simp
qed

section \<open>The steps of the estimator\<close>

lemma diff_axis0_item:
  assumes "shape ts = [N, D]"
  shows "\<exists>g. diff_axis0 ts = Inr g \<and> shape g = [N - 1, D] \<and> wf_array g
           \<and> (\<forall>i d. i < N - 1 \<and> d < D \<longrightarrow>
                 item g [i, d] = item ts [i + 1, d] - item ts [i, d])"
  using assms by (simp add: diff_axis0_def item_fromfunction)

lemma power_broadcast_item:
  assumes "shape g = [n, D]" "shape powers = [D, K]"
  shows "\<exists>pw. power_broadcast g powers = Inr pw \<and> shape pw = [n, D, K]
           \<and> (\<forall>i a k. i < n \<and> a < D \<and> k < K \<longrightarrow>
                 item pw [i, a, k] = fpow (item g [i, a]) (item powers [a, k]))"
  using assms by (auto simp: power_broadcast_def broadcast_dim_def item_fromfunction)

lemma prod_axis1_item:
  assumes "shape pw = [n, D, K]"
  shows "\<exists>w. prod_axis1 pw = Inr w \<and> shape w = [n, K] \<and> wf_array w
           \<and> (\<forall>i k. i < n \<and> k < K \<longrightarrow>
                 item w [i, k] = fprod (map (\<lambda>j. item pw [i, j, k]) [0..<D]))"
  using assms by (simp add: prod_axis1_def item_fromfunction)

lemma kmc_weights_item:
  assumes "shape timeseries = [N, D]" "shape powers = [D, K]"
  shows "\<exists>grads weights.
           diff_axis0 timeseries = Inr grads
         \<and> kmc_weights timeseries powers = Inr weights
         \<and> shape weights = [N - 1, K] \<and> wf_array weights
         \<and> (\<forall>i k. i < N - 1 \<and> k < K \<longrightarrow>
              item weights [i, k]
              = fprod (map (\<lambda>d. fpow (item timeseries [i + 1, d] - item timeseries [i, d])
                                    (item powers [d, k])) [0..<D]))"
proof -
  from diff_axis0_item[OF assms(1)] obtain g where
    g: "diff_axis0 timeseries = Inr g" "shape g = [N - 1, D]"
       "\<And>i d. i < N - 1 \<Longrightarrow> d < D \<Longrightarrow>
          item g [i, d] = item timeseries [i + 1, d] - item timeseries [i, d]"
    by blast
  from power_broadcast_item[OF g(2) assms(2)] obtain pw where
    pw: "power_broadcast g powers = Inr pw" "shape pw = [N - 1, D, K]"
        "\<And>i a k. i < N - 1 \<Longrightarrow> a < D \<Longrightarrow> k < K \<Longrightarrow>
           item pw [i, a, k] = fpow (item g [i, a]) (item powers [a, k])"
    by blast
  from prod_axis1_item[OF pw(2)] obtain w where
    w: "prod_axis1 pw = Inr w" "shape w = [N - 1, K]" "wf_array w"
       "\<And>i k. i < N - 1 \<Longrightarrow> k < K \<Longrightarrow>
          item w [i, k] = fprod (map (\<lambda>j. item pw [i, j, k]) [0..<D])"
    by blast
  have "kmc_weights timeseries powers = Inr w"
    by (simp add: kmc_weights_def g(1) pw(1) w(1))
  moreover have "item w [i, k]
      = fprod (map (\<lambda>d. fpow (item timeseries [i + 1, d] - item timeseries [i, d])
                           (item powers [d, k])) [0..<D])"
    if "i < N - 1" "k < K" for i k
  proof -
    have "map (\<lambda>j. item pw [i, j, k]) [0..<D]
          = map (\<lambda>d. fpow (item timeseries [i + 1, d] - item timeseries [i, d])
                          (item powers [d, k])) [0..<D]"
      using that pw(3) g(3) by (intro map_cong) auto
    with that show ?thesis by (simp only: w(4))
  qed
  ultimately show ?thesis using g(1) w(2,3) by blast
qed

lemma shape2: "length s = 2 \<Longrightarrow> s = [s ! 0, s ! 1]"
  by (cases s; cases "tl s") auto

lemma drop_first_matrix:
  assumes "shape ts = [N, D]"
  shows "\<exists>s. drop_first ts = Inr s \<and> shape s = [N - 1, D] \<and> data s = drop D (data ts)"
  using assms by (simp add: drop_first_def)

lemma rows_nth:
  "shape a = [n, d] \<Longrightarrow> i < n \<Longrightarrow> rows a ! i = take d (drop (i * d) (data a))"
  by (simp add: rows_def)

lemma rows_drop_first:
  assumes "shape ts = [N, D]" "drop_first ts = Inr s" "i < N - 1"
  shows "rows s ! i = rows ts ! (i + 1)"
proof -
  from drop_first_matrix[OF assms(1)] assms(2)
  have s: "shape s = [N - 1, D]" "data s = drop D (data ts)" by auto
  have "rows s ! i = take D (drop (i * D) (drop D (data ts)))"
    using s assms(3) by (simp add: rows_nth)
  also have "\<dots> = take D (drop ((i + 1) * D) (data ts))"
    by (simp add: add.commute)
  also have "\<dots> = rows ts ! (i + 1)"
    using assms(1,3) by (simp add: rows_nth)
  finally show ?thesis .
qed

lemma length_linspace [simp]: "length (linspace r b) = b + 1"
  by (simp add: linspace_def)

lemma histogramdd_item:
  assumes "shape sample = [n, D]" "shape weights = [n, K]" "length bins = D"
  shows "\<exists>h e. histogramdd sample bins weights = Inr (h, e)
           \<and> shape h = bins @ [K] \<and> wf_array h
           \<and> e = map (\<lambda>j. linspace (outer_edges (column sample j)) (bins ! j)) [0..<D]
           \<and> (\<forall>cell k. list_all2 (<) cell bins \<and> k < K \<longrightarrow>
                item h (cell @ [k])
                = fdiv (fsum (map (\<lambda>i. item weights [i, k])
                                (filter (\<lambda>i. map2 bin_of e (rows sample ! i) = cell) [0..<n])))
                       (real n * cell_volume e))"
  using assms
  by (auto simp: histogramdd_def Let_def item_fromfunction list_all2_appendI)

lemma channel_item:
  assumes "shape h = s @ [K]" "p < K"
  shows "\<exists>c. channel h p = Inr c \<and> shape c = s \<and> wf_array c
           \<and> (\<forall>idx. list_all2 (<) idx s \<longrightarrow> item c idx = item h (idx @ [p]))"
  using assms by (simp add: channel_def item_fromfunction)

lemma convolve_same_shape:
  assumes "length (shape in1) = length (shape in2)"
  shows "\<exists>c. convolve_same in1 in2 = Inr c \<and> shape c = shape in1 \<and> wf_array c"
  using assms by (simp add: convolve_same_def)

lemma convolve_channels_ok:
  assumes "shape h = s @ [K]" "length (shape k') = length s" "\<forall>p\<in>set ps. p < K"
  shows "\<exists>cs. convolve_channels k' h ps = Inr cs \<and> length cs = length ps
           \<and> (\<forall>j < length ps. \<exists>hp. channel h (ps ! j) = Inr hp
                  \<and> convolve_same k' hp = Inr (cs ! j)
                  \<and> shape (cs ! j) = shape k' \<and> wf_array (cs ! j))"
  using assms(3)
proof (induction ps)
  case Nil
  then show ?case by simp
next
  case (Cons p ps)
  from Cons.prems have p: "p < K" and ps: "\<forall>p\<in>set ps. p < K" by auto
  from channel_item[OF assms(1) p] obtain hp where
    hp: "channel h p = Inr hp" "shape hp = s" by blast
  from convolve_same_shape[of k' hp] assms(2) hp(2) obtain c where
    c: "convolve_same k' hp = Inr c" "shape c = shape k'" "wf_array c" by auto
  from Cons.IH[OF ps] obtain cs where
    cs: "convolve_channels k' h ps = Inr cs" "length cs = length ps"
        "\<forall>j < length ps. \<exists>hp. channel h (ps ! j) = Inr hp
                  \<and> convolve_same k' hp = Inr (cs ! j)
                  \<and> shape (cs ! j) = shape k' \<and> wf_array (cs ! j)"
    by blast
  have 1: "convolve_channels k' h (p # ps) = Inr (c # cs)"
    by (simp add: hp(1) c(1) cs(1))
  have 2: "\<exists>hp. channel h ((p # ps) ! j) = Inr hp
                  \<and> convolve_same k' hp = Inr ((c # cs) ! j)
                  \<and> shape ((c # cs) ! j) = shape k' \<and> wf_array ((c # cs) ! j)"
    if "j < length (p # ps)" for j
  proof (cases j)
    case 0
    then show ?thesis using hp c by simp
  next
    case (Suc i)
    then show ?thesis using cs(3) that by simp
  qed
  from 1 2 cs(2) show ?case by auto
qed

lemma stack_last_channel:
  assumes "cs \<noteq> []" "\<forall>c\<in>set cs. shape c = s \<and> wf_array c"
  shows "\<exists>res. stack_last cs = Inr res \<and> shape res = s @ [length cs] \<and> wf_array res
           \<and> (\<forall>k < length cs. channel res k = Inr (cs ! k))"
proof -
  obtain x xs where x: "cs = x # xs" using assms(1) by (cases cs) auto
  let ?res = "fromfunction (s @ [length cs]) (\<lambda>idx. item (cs ! last idx) (butlast idx))"
  have 1: "stack_last cs = Inr ?res"
    using assms(2) x by (simp add: stack_last_def)
  have "channel ?res k = Inr (cs ! k)" if "k < length cs" for k
  proof -
    have ck: "shape (cs ! k) = s" "wf_array (cs ! k)"
      using assms(2) that by auto
    have "channel ?res k = Inr (fromfunction s (\<lambda>idx. item ?res (idx @ [k])))"
      using that by (simp add: channel_def)
    also have "fromfunction s (\<lambda>idx. item ?res (idx @ [k])) = fromfunction s (item (cs ! k))"
      using that by (intro fromfunction_cong) (simp add: item_fromfunction list_all2_appendI)
    also have "\<dots> = cs ! k"
      using fromfunction_item[OF ck(2)] ck(1) by simp
    finally show ?thesis .
  qed
  with 1 show ?thesis by auto
qed

lemma map_length_edges:
  assumes "e = map (\<lambda>j. linspace (outer_edges (column sample j)) (bins ! j)) [0..<length bins]"
  shows "map length e = map Suc bins"
  using assms by (auto intro!: nth_equalityI)

lemma shape_normalise [simp]: "shape (normalise k) = shape k"
  by (simp add: normalise_def)

lemma valid_shapesD:
  assumes "valid_shapes timeseries bins powers"
  shows "shape timeseries = [shape timeseries ! 0, shape timeseries ! 1]"
    and "shape powers = [shape timeseries ! 1, shape powers ! 1]"
    and "length bins = shape timeseries ! 1"
    and "bins \<noteq> []" and "1 \<le> shape powers ! 1" and "2 \<le> shape timeseries ! 0"
  using assms shape2[of "shape timeseries"] shape2[of "shape powers"]
  by (auto simp: valid_shapes_def)

lemma kmc_histogram_runs:
  assumes "valid_shapes timeseries bins powers"
  shows "\<exists>weights sample hist edges.
      kmc_weights timeseries powers = Inr weights
    \<and> shape weights = [shape timeseries ! 0 - 1, shape powers ! 1]
    \<and> drop_first timeseries = Inr sample
    \<and> shape sample = [shape timeseries ! 0 - 1, shape timeseries ! 1]
    \<and> histogramdd sample bins weights = Inr (hist, edges)
    \<and> kmc_histogram timeseries bins powers = Inr (hist, edges)
    \<and> shape hist = bins @ [shape powers ! 1]
    \<and> map length edges = map Suc bins"
proof -
  let ?N = "shape timeseries ! 0" and ?D = "shape timeseries ! 1" and ?K = "shape powers ! 1"
  note v = valid_shapesD[OF assms]
  from kmc_weights_item[OF v(1) v(2)] obtain w where
    w: "kmc_weights timeseries powers = Inr w" "shape w = [?N - 1, ?K]" by blast
  from drop_first_matrix[OF v(1)] obtain s where
    s: "drop_first timeseries = Inr s" "shape s = [?N - 1, ?D]" by blast
  from histogramdd_item[OF s(2) w(2) v(3)] obtain h e where
    h: "histogramdd s bins w = Inr (h, e)" "shape h = bins @ [?K]"
       "e = map (\<lambda>j. linspace (outer_edges (column s j)) (bins ! j)) [0..<?D]"
    by blast
  have "kmc_histogram timeseries bins powers = Inr (h, e)"
    by (simp add: kmc_histogram_def w(1) s(1) h(1))
  moreover have "map length e = map Suc bins"
    using h(3) v(3) by (intro map_length_edges[of _ s]) simp
  ultimately show ?thesis using w s h(1,2) by blast
qed

lemma kmc_histogram_shapes:
  assumes "valid_shapes timeseries bins powers"
    and "kmc_histogram timeseries bins powers = Inr (hist, edges)"
  shows "shape hist = bins @ [shape powers ! 1]" and "map length edges = map Suc bins"
    and "length edges = length bins" and "edges \<noteq> []"
proof -
  from kmc_histogram_runs[OF assms(1)] assms(2)
  show 1: "shape hist = bins @ [shape powers ! 1]" and 2: "map length edges = map Suc bins"
    by auto
  from 2 show 3: "length edges = length bins"
    using map_eq_imp_length_eq by fastforce
  with valid_shapesD(4)[OF assms(1)] show "edges \<noteq> []" by auto
qed

lemma kmc_kernel_runs:
  assumes "valid_shapes timeseries bins powers"
    and "kernel_sized timeseries bins kernel_fn bw powers"
    and "kmc_histogram timeseries bins powers = Inr (hist, edges)"
  shows "\<exists>mesh.
      cartesian_product edges = Inr mesh
    \<and> shape mesh = [prod_list (map Suc bins), length bins]
    \<and> rows mesh = product_lists edges
    \<and> kmc_kernel edges kernel_fn bw
       = Inr (normalise \<lparr>shape = map Suc bins, data = data (kernel_fn mesh bw)\<rparr>)
    \<and> length (data (kernel_fn mesh bw)) = prod_list (map Suc bins)
    \<and> kernel_sum timeseries bins kernel_fn bw powers = sum_list (data (kernel_fn mesh bw))"
proof -
  note e = kmc_histogram_shapes[OF assms(1,3)]
  from cartesian_product_rows[OF e(4)] obtain mesh where
    m: "cartesian_product edges = Inr mesh"
       "shape mesh = [prod_list (map length edges), length edges]"
       "rows mesh = product_lists edges"
    by blast
  have km: "kmc_mesh timeseries bins powers = Inr mesh"
    by (simp add: kmc_mesh_def assms(3) m(1))
  have sz: "length (data (kernel_fn mesh bw)) = prod_list (map Suc bins)"
    using assms(2) by (simp add: kernel_sized_def km m(2) e(2))
  have "kmc_kernel edges kernel_fn bw
     = Inr (normalise \<lparr>shape = map Suc bins, data = data (kernel_fn mesh bw)\<rparr>)"
    by (simp add: kmc_kernel_def m(1) reshape_def sz e(2))
  moreover have "kernel_sum timeseries bins kernel_fn bw powers
                 = sum_list (data (kernel_fn mesh bw))"
    by (simp add: kernel_sum_def km)
  ultimately show ?thesis using m sz e(2,3) by simp
qed

lemma estimator_runs:
  assumes "valid_shapes timeseries bins powers"
    and "kmc_histogram timeseries bins powers = Inr (hist, edges)"
    and "kmc_kernel edges kernel_fn bw = Inr kernel'"
    and "shape kernel' = map Suc bins"
  shows "\<exists>kmc res.
      convolve_channels kernel' hist [0..<shape powers ! 1] = Inr kmc
    \<and> length kmc = shape powers ! 1
    \<and> (\<forall>k < shape powers ! 1.
         \<exists>hk. channel hist k = Inr hk \<and> shape hk = bins
            \<and> convolve_same kernel' hk = Inr (kmc ! k) \<and> shape (kmc ! k) = map Suc bins)
    \<and> kmc_kernel_estimator timeseries bins kernel_fn bw powers = Inr (res, edges)
    \<and> shape res = map Suc bins @ [shape powers ! 1] \<and> wf_array res
    \<and> (\<forall>k < shape powers ! 1. channel res k = Inr (kmc ! k))"
proof -
  let ?K = "shape powers ! 1"
  note e = kmc_histogram_shapes[OF assms(1,2)]
  note sk = assms(4)
  have K: "1 \<le> ?K" using valid_shapesD(5)[OF assms(1)] .
  have "length (shape kernel') = length bins" using sk by simp
  from convolve_channels_ok[OF e(1) this, of "[0..<?K]"] obtain cs where
    cs: "convolve_channels kernel' hist [0..<?K] = Inr cs" "length cs = ?K"
        "\<forall>j < ?K. \<exists>hp. channel hist j = Inr hp
                  \<and> convolve_same kernel' hp = Inr (cs ! j)
                  \<and> shape (cs ! j) = shape kernel' \<and> wf_array (cs ! j)"
    by auto
  have all: "\<forall>c\<in>set cs. shape c = map Suc bins \<and> wf_array c"
  proof
    fix c assume "c \<in> set cs"
    then obtain j where "j < ?K" "c = cs ! j"
      using cs(2) by (auto simp: in_set_conv_nth)
    with cs(3) sk show "shape c = map Suc bins \<and> wf_array c" by auto
  qed
  have "cs \<noteq> []" using cs(2) K by auto
  from stack_last_channel[OF this all] obtain res where
    res: "stack_last cs = Inr res" "shape res = map Suc bins @ [?K]" "wf_array res"
         "\<forall>k < ?K. channel res k = Inr (cs ! k)"
    using cs(2) by auto
  have est: "kmc_kernel_estimator timeseries bins kernel_fn bw powers = Inr (res, edges)"
    using cs(1) res(1) by (simp add: kmc_kernel_estimator_def assms(2,3))
  have ch: "\<forall>k < ?K. \<exists>hk. channel hist k = Inr hk \<and> shape hk = bins
          \<and> convolve_same kernel' hk = Inr (cs ! k) \<and> shape (cs ! k) = map Suc bins"
  proof (intro allI impI)
    fix k assume k: "k < ?K"
    from channel_item[OF e(1) k] obtain hk where
      "channel hist k = Inr hk" "shape hk = bins" by blast
    with cs(3) k sk show "\<exists>hk. channel hist k = Inr hk \<and> shape hk = bins
          \<and> convolve_same kernel' hk = Inr (cs ! k) \<and> shape (cs ! k) = map Suc bins"
      by auto
  qed
  from cs(1,2) ch est res(2,3,4) show ?thesis by blast
qed

lemma fprod_ones: "fprod (map (\<lambda>d. Fin 1) xs) = Fin 1"
proof -
  have "foldl fmul (Fin 1) (map (\<lambda>d. Fin 1) xs) = Fin 1"
    by (induction xs) auto
  then show ?thesis by (simp add: fprod_def)
qed

lemma fpow_zero [simp]: "fpow x 0 = Fin 1"
  by (simp add: fpow_def)

lemma histogramdd_edges_sample:
  assumes "histogramdd sample bins w1 = Inr (h1, e1)" "histogramdd sample bins w2 = Inr (h2, e2)"
  shows "e1 = e2"
  using assms
  by (auto simp: histogramdd_def Let_def split: list.splits if_splits)

section \<open>Non-finite values spread\<close>

lemma fsum_NonFin:
  assumes "NonFin \<in> set xs"
  shows "fsum xs = NonFin"
proof -
  have a: "foldl fadd NonFin ys = NonFin" for ys
    by (induction ys) auto
  have "foldl fadd acc xs = NonFin" for acc
    using assms
  proof (induction xs arbitrary: acc)
    case Nil
    then show ?case by simp
  next
    case (Cons x xs)
    show ?case
    proof (cases "x = NonFin")
      case True
      then have "fadd acc x = NonFin" by (cases acc) auto
      then show ?thesis by (simp add: a)
    next
      case False
      with Cons.prems have "NonFin \<in> set xs" by auto
      then show ?thesis using Cons.IH by simp
    qed
  qed
  then show ?thesis by (simp add: fsum_def)
qed

lemma item_in_data:
  assumes "wf_array a" "list_all2 (<) idx (shape a)"
  shows "item a idx \<in> set (data a)"
  using assms ravel_less[OF assms(2)] by (simp add: item_def wf_array_def)

lemma data_fromfunction_all:
  assumes "\<And>idx. list_all2 (<) idx s \<Longrightarrow> P (f idx)"
  shows "\<forall>x\<in>set (data (fromfunction s f)). P x"
  using assms by (auto simp: fromfunction_def set_ndindex)

lemma full_convolution_NonFin:
  assumes "wf_array in1" "\<forall>x\<in>set (data in1). x = NonFin"
    and "list_all2 (<) n (shape in1)" "length (shape in2) = length (shape in1)"
    and "\<forall>s\<in>set (shape in2). 1 \<le> s"
  shows "full_convolution_at in1 in2 (map2 (+) n (map (\<lambda>s. (s - 1) div 2) (shape in2)))
         = NonFin"
proof -
  let ?off = "map (\<lambda>s. (s - 1) div 2) (shape in2)"
  let ?c = "map2 (+) n ?off"
  have ln: "length n = length (shape in1)"
    using assms(3) by (rule list_all2_lengthD)
  have 1: "list_all2 (\<le>) n ?c"
    using ln assms(4) by (simp add: list_all2_conv_all_nth)
  have 2: "list_all2 (<) (map2 (-) ?c n) (shape in2)"
  proof (rule list_all2_all_nthI)
    show "length (map2 (-) ?c n) = length (shape in2)"
      using ln assms(4) by simp
  next
    fix j assume "j < length (map2 (-) ?c n)"
    then have j: "j < length (shape in2)" "j < length n"
      using ln assms(4) by simp_all
    then have "1 \<le> shape in2 ! j" using assms(5) by simp
    then have "(shape in2 ! j - 1) div 2 < shape in2 ! j" by simp
    with j show "map2 (-) ?c n ! j < shape in2 ! j" by simp
  qed
  have "n \<in> set (ndindex (shape in1))"
    using assms(3) by (simp add: set_ndindex)
  with 1 2 have "n \<in> set (filter (\<lambda>m. list_all2 (\<le>) m ?c
                      \<and> list_all2 (<) (map2 (-) ?c m) (shape in2)) (ndindex (shape in1)))"
    by simp
  moreover have "fmul (item in1 n) (item in2 (map2 (-) ?c n)) = NonFin"
    using item_in_data[OF assms(1,3)] assms(2) by auto
  ultimately have "NonFin \<in> set (map (\<lambda>m. fmul (item in1 m) (item in2 (map2 (-) ?c m)))
        (filter (\<lambda>m. list_all2 (\<le>) m ?c
                      \<and> list_all2 (<) (map2 (-) ?c m) (shape in2)) (ndindex (shape in1))))"
    by (simp only: set_map) (rule image_eqI[where x = n], simp_all)
  then show ?thesis
    unfolding full_convolution_at_def by (rule fsum_NonFin)
qed

lemma valid_index_snoc:
  assumes "list_all2 (<) idx (s @ [K])"
  obtains i k where "idx = i @ [k]" "list_all2 (<) i s" "k < K"
proof -
  from assms obtain i r where "idx = i @ r" "list_all2 (<) i s" "list_all2 (<) r [K]"
    by (auto simp: list_all2_append2)
  moreover then obtain k where "r = [k]" "k < K"
    by (auto simp: list_all2_Cons2)
  ultimately show ?thesis using that by blast
qed

lemma all_data_by_channels:
  assumes "wf_array res" "shape res = s @ [K]"
    and "\<forall>k < K. \<exists>c. channel res k = Inr c \<and> (\<forall>x\<in>set (data c). P x)"
  shows "\<forall>x\<in>set (data res). P x"
proof
  fix x assume "x \<in> set (data res)"
  then obtain j where j: "j < length (data res)" "x = data res ! j"
    by (auto simp: in_set_conv_nth)
  then have jp: "j < prod_list (shape res)" using assms(1) by (simp add: wf_array_def)
  let ?idx = "ndindex (shape res) ! j"
  have "?idx \<in> set (ndindex (shape res))"
    using jp by (simp add: length_ndindex)
  then have v: "list_all2 (<) ?idx (s @ [K])"
    using assms(2) by (simp add: set_ndindex)
  have x: "x = item res ?idx"
    using j(2) jp by (simp add: item_def ravel_ndindex_nth)
  from v obtain i k where ik: "?idx = i @ [k]" "list_all2 (<) i s" "k < K"
    by (rule valid_index_snoc)
  from assms(3) ik(3) obtain c where
    c: "channel res k = Inr c" "\<forall>x\<in>set (data c). P x" by blast
  have "c = fromfunction s (\<lambda>i. item res (i @ [k]))"
    using c(1) ik(3) assms(2) by (simp add: channel_def)
  then have "item res (i @ [k]) \<in> set (data c)"
    using ik(2) by (simp add: fromfunction_def set_ndindex)
  with c(2) x ik(1) show "P x" by simp
qed

section \<open>The direct sum is the zero-padded convolution\<close>

lemma fsum_filter_zero:
  "fsum (map (\<lambda>m. if P m then f m else Fin 0) xs) = fsum (map f (filter P xs))"
proof -
  have z: "fadd acc (Fin 0) = acc" for acc by (cases acc) auto
  have "foldl fadd acc (map (\<lambda>m. if P m then f m else Fin 0) xs)
        = foldl fadd acc (map f (filter P xs))" for acc
    by (induction xs arbitrary: acc) (auto simp: z)
  then show ?thesis by (simp add: fsum_def)
qed

lemma in_range_int:
  assumes "length m = length n" "length s = length n"
  shows "list_all2 (\<lambda>i s. 0 \<le> i \<and> i < int s) (map2 (\<lambda>a b. a - int b) (map int n) m) s
         \<longleftrightarrow> list_all2 (\<le>) m n \<and> list_all2 (<) (map2 (-) n m) s"
  using assms by (auto simp: list_all2_conv_all_nth)

lemma map_nat_diff:
  assumes "list_all2 (\<le>) m n"
  shows "map nat (map2 (\<lambda>a b. a - int b) (map int n) m) = map2 (-) n m"
  using assms
  by (intro nth_equalityI) (auto simp: list_all2_conv_all_nth)

lemma full_convolution_zero_padded:
  assumes "wf_array in1" "\<forall>x\<in>set (data in1). x \<noteq> NonFin"
    and "length n = length (shape in1)" "length (shape in2) = length (shape in1)"
  shows "full_convolution_at in1 in2 n = zero_padded_convolution_at in1 in2 (map int n)"
proof -
  let ?C = "\<lambda>m. list_all2 (\<le>) m n \<and> list_all2 (<) (map2 (-) n m) (shape in2)"
  let ?f = "\<lambda>m. fmul (item in1 m) (item in2 (map2 (-) n m))"
  have "fmul (item in1 m) (zero_padded in2 (map2 (\<lambda>a b. a - int b) (map int n) m))
        = (if ?C m then ?f m else Fin 0)"
    if "m \<in> set (ndindex (shape in1))" for m
  proof -
    have v: "list_all2 (<) m (shape in1)" using that by (simp add: set_ndindex)
    then have lm: "length m = length n" using assms(3) by (auto dest: list_all2_lengthD)
    have "item in1 m \<noteq> NonFin"
      using item_in_data[OF assms(1) v] assms(2) by blast
    then obtain a where a: "item in1 m = Fin a" by (cases "item in1 m") auto
    have ls: "length (shape in2) = length n" using assms(3,4) by simp
    note iff = in_range_int[OF lm ls]
    show ?thesis
    proof (cases "?C m")
      case True
      then have r: "list_all2 (\<lambda>i s. 0 \<le> i \<and> i < int s)
                      (map2 (\<lambda>a b. a - int b) (map int n) m) (shape in2)"
        using iff by simp
      have "zero_padded in2 (map2 (\<lambda>a b. a - int b) (map int n) m)
            = item in2 (map nat (map2 (\<lambda>a b. a - int b) (map int n) m))"
        using r by (simp only: zero_padded_def if_True)
      also have "\<dots> = item in2 (map2 (-) n m)"
        using True by (simp only: map_nat_diff)
      finally show ?thesis using True by simp
    next
      case False
      then have "\<not> list_all2 (\<lambda>i s. 0 \<le> i \<and> i < int s)
                      (map2 (\<lambda>a b. a - int b) (map int n) m) (shape in2)"
        using iff by simp
      then have "zero_padded in2 (map2 (\<lambda>a b. a - int b) (map int n) m) = Fin 0"
        by (simp only: zero_padded_def if_False)
      with False a show ?thesis by auto
    qed
  qed
  then have "map (\<lambda>m. fmul (item in1 m) (zero_padded in2 (map2 (\<lambda>a b. a - int b) (map int n) m)))
               (ndindex (shape in1))
             = map (\<lambda>m. if ?C m then ?f m else Fin 0) (ndindex (shape in1))"
    by (intro map_cong) auto
  then have "zero_padded_convolution_at in1 in2 (map int n)
             = fsum (map (\<lambda>m. if ?C m then ?f m else Fin 0) (ndindex (shape in1)))"
    by (simp only: zero_padded_convolution_at_def)
  also have "\<dots> = fsum (map ?f (filter ?C (ndindex (shape in1))))"
    by (rule fsum_filter_zero)
  finally show ?thesis by (simp only: full_convolution_at_def)
qed

lemma normalise_finite:
  assumes "sum_list (data k) \<noteq> 0"
  shows "\<forall>x\<in>set (data (normalise k)). x \<noteq> NonFin"
  using assms by (auto simp: normalise_def)

section \<open>Integer and float arguments\<close>

lemma power_broadcast_fpow: "power_broadcast grads powers = broadcast_power fpow grads powers"
  by (simp add: power_broadcast_def broadcast_power_def)

lemma estimator_typed_float_int:
  "kmc_kernel_estimator_typed (F64 ts) bins kernel_fn bw (I64 pw)
   = kmc_kernel_estimator ts bins kernel_fn bw pw"
  unfolding kmc_kernel_estimator_typed_def kmc_kernel_estimator_def
    kmc_histogram_typed_def kmc_histogram_def kmc_weights_typed.simps as_float.simps
    shape_of.simps ..

lemma broadcast_power_shape:
  assumes "shape g = [n, D]" "shape pw = [A, K]"
  shows "A \<noteq> D \<and> A \<noteq> 1 \<and> D \<noteq> 1 \<Longrightarrow> broadcast_power f g pw = Inl BroadcastError"
    and "A = D \<or> A = 1 \<or> D = 1 \<Longrightarrow>
         \<exists>x m. broadcast_power f g pw = Inr x \<and> shape x = [n, m, K]
              \<and> broadcast_dim D A = Inr m
              \<and> data x = map (\<lambda>idx. f (item g [idx ! 0, if D = 1 then 0 else idx ! 1])
                                      (item pw [if A = 1 then 0 else idx ! 1, idx ! 2]))
                           (ndindex [n, m, K])"
  using assms by (auto simp: broadcast_power_def broadcast_dim_def fromfunction_def)

lemma diff_axis0_int64_shape:
  assumes "shape ts = [N, D]"
  shows "\<exists>g. diff_axis0_int64 ts = Inr g \<and> shape g = [N - 1, D]"
  using assms by (simp add: diff_axis0_int64_def)

lemma shape_to_float [simp]: "shape (to_float a) = shape a"
  by (simp add: to_float_def)


lemma power_int64_cases:
  assumes "shape g = [n, D]" "shape pw = [A, K]" "A = D \<or> A = 1 \<or> D = 1"
  shows "(1 \<le> n \<and> 1 \<le> D \<and> (\<exists>a\<in>set [0..<A]. \<exists>k\<in>set [0..<K]. item pw [a, k] < 0)
            \<longrightarrow> power_int64 g pw = Inl NegativePowerError)
       \<and> (\<not> (1 \<le> n \<and> 1 \<le> D \<and> (\<exists>a\<in>set [0..<A]. \<exists>k\<in>set [0..<K]. item pw [a, k] < 0))
            \<longrightarrow> (\<exists>x m. power_int64 g pw = Inr x \<and> shape x = [n, m, K]))"
proof -
  from broadcast_power_shape(2)[OF assms(1,2,3), of Pair] obtain x m where
    x: "broadcast_power Pair g pw = Inr x" "shape x = [n, m, K]" "broadcast_dim D A = Inr m"
       "data x = map (\<lambda>idx. (item g [idx ! 0, if D = 1 then 0 else idx ! 1],
                             item pw [if A = 1 then 0 else idx ! 1, idx ! 2]))
                   (ndindex [n, m, K])"
    by blast
  have m: "m = (if A = 1 then D else A)"
    using x(3) assms(3) by (auto simp: broadcast_dim_def split: if_splits)
  have neg: "(\<exists>gp\<in>set (data x). snd gp < 0)
         \<longleftrightarrow> 1 \<le> n \<and> 1 \<le> D \<and> (\<exists>a\<in>set [0..<A]. \<exists>k\<in>set [0..<K]. item pw [a, k] < 0)"
    (is "?L \<longleftrightarrow> ?R")
  proof
    assume ?L
    then obtain idx where idx: "idx \<in> set (ndindex [n, m, K])"
      "item pw [if A = 1 then 0 else idx ! 1, idx ! 2] < 0"
      unfolding x(4) by (auto simp del: ndindex.simps)
    from idx(1) obtain i j k where ijk: "idx = [i, j, k]" "i < n" "j < m" "k < K"
      by (auto simp: set_ndindex list_all2_Cons2)
    have "1 \<le> D" using ijk(3) m assms(3) by (auto split: if_splits)
    moreover have "(if A = 1 then 0 else j) < A" using ijk(3) m by (auto split: if_splits)
    moreover have "item pw [if A = 1 then 0 else j, k] < 0" using idx(2) ijk(1) by (cases "A = 1") simp_all
    ultimately have "1 \<le> D" "\<exists>a\<in>set [0..<A]. \<exists>k\<in>set [0..<K]. item pw [a, k] < 0"
      using ijk(4) by (simp, intro bexI[of _ "if A = 1 then 0 else j"] bexI[of _ k]) simp_all
    then show ?R using ijk(2) by simp
  next
    assume r: ?R
    then obtain a k where ak: "a < A" "k < K" "item pw [a, k] < 0" by auto
    let ?idx = "[0, if A = 1 then 0 else a, k]"
    have "(if A = 1 then 0 else a) < m" using ak(1) r m by auto
    then have "?idx \<in> set (ndindex [n, m, K])"
      using r ak(2) by (simp add: set_ndindex del: ndindex.simps)
    moreover have "item pw [if A = 1 then 0 else ?idx ! 1, ?idx ! 2] < 0"
      using ak by auto
    ultimately have "\<exists>idx\<in>set (ndindex [n, m, K]).
        item pw [if A = 1 then 0 else idx ! 1, idx ! 2] < 0"
      by (rule bexI[rotated])
    then show ?L unfolding x(4) by (simp del: ndindex.simps)
  qed
  show ?thesis
    using neg x(2) by (auto simp: power_int64_def x(1))
qed


lemma prod_axis1_int64_shape:
  assumes "shape x = [n, m, K]"
  shows "\<exists>w. prod_axis1_int64 x = Inr w \<and> shape w = [n, K]"
  using assms by (simp add: prod_axis1_int64_def)

lemma float_weights_shape:
  assumes "shape g = [n, D]" "shape pw = [A, K]"
  shows "(A \<noteq> D \<and> A \<noteq> 1 \<and> D \<noteq> 1 \<longrightarrow>
            (case broadcast_power f g pw of Inl e \<Rightarrow> Inl e | Inr x \<Rightarrow> prod_axis1 x)
            = Inl BroadcastError)
       \<and> (A = D \<or> A = 1 \<or> D = 1 \<longrightarrow>
            (\<exists>w. (case broadcast_power f g pw of Inl e \<Rightarrow> Inl e | Inr x \<Rightarrow> prod_axis1 x)
                  = Inr w \<and> shape w = [n, K]))"
proof (intro conjI impI)
  assume "A \<noteq> D \<and> A \<noteq> 1 \<and> D \<noteq> 1"
  from broadcast_power_shape(1)[OF assms this, of f]
  show "(case broadcast_power f g pw of Inl e \<Rightarrow> Inl e | Inr x \<Rightarrow> prod_axis1 x)
        = Inl BroadcastError" by simp
next
  assume "A = D \<or> A = 1 \<or> D = 1"
  from broadcast_power_shape(2)[OF assms this, of f] obtain x m where
    x: "broadcast_power f g pw = Inr x" "shape x = [n, m, K]" by blast
  from prod_axis1_item[OF x(2)] obtain w where "prod_axis1 x = Inr w" "shape w = [n, K]"
    by blast
  then show "\<exists>w. (case broadcast_power f g pw of Inl e \<Rightarrow> Inl e | Inr x \<Rightarrow> prod_axis1 x)
                 = Inr w \<and> shape w = [n, K]"
    by (simp add: x(1))
qed

lemma kmc_weights_typed_cases:
  assumes "shape_of timeseries = [N, D]" "shape_of powers = [A, K]"
  shows "A \<noteq> D \<and> A \<noteq> 1 \<and> D \<noteq> 1 \<Longrightarrow>
           kmc_weights_typed timeseries powers = Inl BroadcastError"
    and "A = D \<or> A = 1 \<or> D = 1 \<Longrightarrow> negative_integer_power timeseries powers \<Longrightarrow>
           kmc_weights_typed timeseries powers = Inl NegativePowerError"
    and "A = D \<or> A = 1 \<or> D = 1 \<Longrightarrow> \<not> negative_integer_power timeseries powers \<Longrightarrow>
           \<exists>weights. kmc_weights_typed timeseries powers = Inr weights
                   \<and> shape weights = [N - 1, K]"
proof -
  have ff: "(A \<noteq> D \<and> A \<noteq> 1 \<and> D \<noteq> 1 \<longrightarrow> kmc_weights_typed (F64 ts) (F64 pw) = Inl BroadcastError)
      \<and> (A = D \<or> A = 1 \<or> D = 1 \<longrightarrow>
           (\<exists>w. kmc_weights_typed (F64 ts) (F64 pw) = Inr w \<and> shape w = [N - 1, K]))"
    if "shape ts = [N, D]" "shape pw = [A, K]" for ts :: "real ndarray" and pw :: "real ndarray"
  proof -
    from diff_axis0_item[OF that(1)] obtain g where
      g: "diff_axis0 ts = Inr g" "shape g = [N - 1, D]" by blast
    show ?thesis
      using float_weights_shape[OF g(2) that(2), of fpowr] by (simp add: g(1))
  qed
  have fi: "(A \<noteq> D \<and> A \<noteq> 1 \<and> D \<noteq> 1 \<longrightarrow> kmc_weights_typed (F64 ts) (I64 pw) = Inl BroadcastError)
      \<and> (A = D \<or> A = 1 \<or> D = 1 \<longrightarrow>
           (\<exists>w. kmc_weights_typed (F64 ts) (I64 pw) = Inr w \<and> shape w = [N - 1, K]))"
    if "shape ts = [N, D]" "shape pw = [A, K]" for ts :: "real ndarray" and pw :: "int ndarray"
  proof -
    from diff_axis0_item[OF that(1)] obtain g where
      g: "diff_axis0 ts = Inr g" "shape g = [N - 1, D]" by blast
    show ?thesis
      using float_weights_shape[OF g(2) that(2), of fpow]
      by (simp add: g(1) kmc_weights_def power_broadcast_fpow)
  qed
  have "if": "(A \<noteq> D \<and> A \<noteq> 1 \<and> D \<noteq> 1 \<longrightarrow> kmc_weights_typed (I64 ts) (F64 pw) = Inl BroadcastError)
      \<and> (A = D \<or> A = 1 \<or> D = 1 \<longrightarrow>
           (\<exists>w. kmc_weights_typed (I64 ts) (F64 pw) = Inr w \<and> shape w = [N - 1, K]))"
    if "shape ts = [N, D]" "shape pw = [A, K]" for ts :: "int ndarray" and pw :: "real ndarray"
  proof -
    from diff_axis0_int64_shape[OF that(1)] obtain g where
      g: "diff_axis0_int64 ts = Inr g" "shape g = [N - 1, D]" by blast
    then have "shape (to_float g) = [N - 1, D]" by simp
    from float_weights_shape[OF this that(2), of fpowr] show ?thesis
      by (simp add: g(1))
  qed
  have ii: "(A \<noteq> D \<and> A \<noteq> 1 \<and> D \<noteq> 1 \<longrightarrow> kmc_weights_typed (I64 ts) (I64 pw) = Inl BroadcastError)
      \<and> ((A = D \<or> A = 1 \<or> D = 1) \<and> negative_integer_power (I64 ts) (I64 pw) \<longrightarrow>
           kmc_weights_typed (I64 ts) (I64 pw) = Inl NegativePowerError)
      \<and> ((A = D \<or> A = 1 \<or> D = 1) \<and> \<not> negative_integer_power (I64 ts) (I64 pw) \<longrightarrow>
           (\<exists>w. kmc_weights_typed (I64 ts) (I64 pw) = Inr w \<and> shape w = [N - 1, K]))"
    if "shape ts = [N, D]" "shape pw = [A, K]" for ts :: "int ndarray" and pw :: "int ndarray"
  proof -
    from diff_axis0_int64_shape[OF that(1)] obtain g where
      g: "diff_axis0_int64 ts = Inr g" "shape g = [N - 1, D]" by blast
    have n: "negative_integer_power (I64 ts) (I64 pw) \<longleftrightarrow>
        1 \<le> N - 1 \<and> 1 \<le> D \<and> (\<exists>a\<in>set [0..<A]. \<exists>k\<in>set [0..<K]. item pw [a, k] < 0)"
      using that by auto
    have 1: "kmc_weights_typed (I64 ts) (I64 pw) = Inl BroadcastError"
      if "A \<noteq> D \<and> A \<noteq> 1 \<and> D \<noteq> 1"
      using broadcast_power_shape(1)[OF g(2) \<open>shape pw = [A, K]\<close> that, of Pair]
      by (simp add: g(1) power_int64_def)
    have 2: "kmc_weights_typed (I64 ts) (I64 pw) = Inl NegativePowerError"
      if "A = D \<or> A = 1 \<or> D = 1" "negative_integer_power (I64 ts) (I64 pw)"
      using power_int64_cases[OF g(2) \<open>shape pw = [A, K]\<close> that(1)] that(2)
      unfolding n by (simp add: g(1))
    have 3: "\<exists>w. kmc_weights_typed (I64 ts) (I64 pw) = Inr w \<and> shape w = [N - 1, K]"
      if "A = D \<or> A = 1 \<or> D = 1" "\<not> negative_integer_power (I64 ts) (I64 pw)"
    proof -
      from power_int64_cases[OF g(2) \<open>shape pw = [A, K]\<close> that(1)] that(2) obtain x m where
        x: "power_int64 g pw = Inr x" "shape x = [N - 1, m, K]"
        unfolding n by blast
      from prod_axis1_int64_shape[OF x(2)] obtain w where
        "prod_axis1_int64 x = Inr w" "shape w = [N - 1, K]" by blast
      then show ?thesis by (simp add: g(1) x(1))
    qed
    from 1 2 3 show ?thesis by blast
  qed
  show "A \<noteq> D \<and> A \<noteq> 1 \<and> D \<noteq> 1 \<Longrightarrow>
           kmc_weights_typed timeseries powers = Inl BroadcastError"
    using assms ff fi "if" ii by (cases timeseries; cases powers) auto
  show "A = D \<or> A = 1 \<or> D = 1 \<Longrightarrow> negative_integer_power timeseries powers \<Longrightarrow>
           kmc_weights_typed timeseries powers = Inl NegativePowerError"
    using assms ii by (cases timeseries; cases powers) auto
  show "A = D \<or> A = 1 \<or> D = 1 \<Longrightarrow> \<not> negative_integer_power timeseries powers \<Longrightarrow>
           \<exists>weights. kmc_weights_typed timeseries powers = Inr weights
                   \<and> shape weights = [N - 1, K]"
    using assms ff fi "if" ii by (cases timeseries; cases powers) auto
qed


lemma shape_as_float [simp]: "shape (as_float a) = shape_of a"
  by (cases a) simp_all

lemma estimator_typed_runs:
  assumes "shape_of timeseries = [N, D]" "shape_of powers = [A, K]"
    and "length bins = D" "1 \<le> D" "1 \<le> K"
    and "\<not> negative_integer_power timeseries powers"
    and "kernel_sized_typed timeseries bins kernel_fn bw powers"
    and "A = D \<or> A = 1 \<or> D = 1"
  shows "\<exists>res edges.
           kmc_kernel_estimator_typed timeseries bins kernel_fn bw powers = Inr (res, edges)
         \<and> shape res = map Suc bins @ [K] \<and> map length edges = map Suc bins"
proof -
  from kmc_weights_typed_cases(3)[OF assms(1,2,8,6)] obtain w where
    w: "kmc_weights_typed timeseries powers = Inr w" "shape w = [N - 1, K]" by blast
  have "shape (as_float timeseries) = [N, D]" using assms(1) by simp
  from drop_first_matrix[OF this] obtain s where
    s: "drop_first (as_float timeseries) = Inr s" "shape s = [N - 1, D]" by blast
  from histogramdd_item[OF s(2) w(2) assms(3)] obtain h e where
    h: "histogramdd s bins w = Inr (h, e)" "shape h = bins @ [K]"
       "e = map (\<lambda>j. linspace (outer_edges (column s j)) (bins ! j)) [0..<D]"
    by blast
  have kh: "kmc_histogram_typed timeseries bins powers = Inr (h, e)"
    by (simp add: kmc_histogram_typed_def w(1) s(1) h(1))
  have le: "map length e = map Suc bins"
    using h(3) assms(3) by (intro map_length_edges[of _ s]) simp
  then have "length e = length bins" using map_eq_imp_length_eq by fastforce
  then have "e \<noteq> []" using assms(3,4) by auto
  from cartesian_product_rows[OF this] obtain mesh where
    m: "cartesian_product e = Inr mesh"
       "shape mesh = [prod_list (map length e), length e]" by blast
  have sz: "length (data (kernel_fn mesh bw)) = prod_list (map Suc bins)"
    using assms(7) by (simp add: kernel_sized_typed_def kh m le)
  let ?k = "normalise \<lparr>shape = map Suc bins, data = data (kernel_fn mesh bw)\<rparr>"
  have kk: "kmc_kernel e kernel_fn bw = Inr ?k"
    by (simp add: kmc_kernel_def m(1) reshape_def sz le)
  have "length (shape ?k) = length bins" by simp
  from convolve_channels_ok[OF h(2) this, of "[0..<K]"] obtain cs where
    cs: "convolve_channels ?k h [0..<K] = Inr cs" "length cs = K"
        "\<forall>j < K. shape (cs ! j) = shape ?k \<and> wf_array (cs ! j)"
    by auto
  have all: "\<forall>c\<in>set cs. shape c = map Suc bins \<and> wf_array c"
  proof
    fix c assume "c \<in> set cs"
    then obtain j where "j < K" "c = cs ! j"
      using cs(2) by (auto simp: in_set_conv_nth)
    with cs(3) show "shape c = map Suc bins \<and> wf_array c" by auto
  qed
  have "cs \<noteq> []" using cs(2) assms(5) by auto
  from stack_last_channel[OF this all] obtain res where
    res: "stack_last cs = Inr res" "shape res = map Suc bins @ [K]"
    using cs(2) by auto
  have "shape_of powers ! 1 = K" using assms(2) by simp
  then have "kmc_kernel_estimator_typed timeseries bins kernel_fn bw powers = Inr (res, e)"
    by (simp add: kmc_kernel_estimator_typed_def kh kk cs(1) res(1))
  with res(2) le show ?thesis by blast
qed

section \<open>The store\<close>


lemma read_reals_alloc:
  "read_reals (h @ [FloatBuf (map Fin xs)]) \<lparr>buf = length h, ashape = s\<rparr>
   = Some \<lparr>shape = s, data = xs\<rparr>"
  by (auto simp: read_reals_def comp_def)

lemma nth_append_two: "(h @ [a, b]) ! Suc (length h) = b"
  by (simp add: nth_append)

text \<open>
  With a kernel that is a function of the mesh, the estimator on the store computes what
  \<open>kmc_kernel_estimator\<close> computes, and fails where it fails.
\<close>

lemma estimator_st_pure:
  assumes "read_reals h timeseries = Some ts" "read_bins h bins = Some bn"
    and "read_ints h powers = Some pw"
  shows "case kmc_kernel_estimator_st h timeseries bins (pure_kernel kernel_fn) bw powers of
           Inl e \<Rightarrow> kmc_kernel_estimator ts bn kernel_fn bw pw = Inl e
         | Inr (h', r, edges) \<Rightarrow>
             \<exists>res. kmc_kernel_estimator ts bn kernel_fn bw pw = Inr (res, edges)
                 \<and> shape res = ashape r \<and> h' ! buf r = FloatBuf (data res)"
proof -
  have sp: "ashape powers = shape pw"
    using assms(3) by (auto simp: read_ints_def split: if_splits buffer.splits)
  show ?thesis
  proof (cases "kmc_histogram ts bn pw")
    case (Inl e)
    then show ?thesis
      using assms
      by (simp add: kmc_kernel_estimator_st_def kernel_call_def kmc_kernel_estimator_def)
  next
    case (Inr he)
    obtain hist edges where he: "he = (hist, edges)" by (cases he) auto
    show ?thesis
    proof (cases "cartesian_product edges")
      case (Inl e)
      then show ?thesis
        using assms Inr he
        by (simp add: kmc_kernel_estimator_st_def kernel_call_def kmc_kernel_estimator_def
            kmc_kernel_def)
    next
      case mesh: (Inr mesh)
      let ?h1 = "h @ [FloatBuf (map Fin (data mesh))]"
      let ?m = "\<lparr>buf = length h, ashape = shape mesh\<rparr>"
      let ?kr = "kernel_fn mesh bw"
      have kc: "kernel_call h timeseries bins powers = Inr (?h1, ?m, hist, edges)"
        using assms Inr he mesh by (simp add: kernel_call_def alloc_floats_def)
      have rm: "read_reals ?h1 ?m = Some mesh"
        by (simp add: read_reals_alloc)
      have pk: "pure_kernel kernel_fn ?h1 ?m bw
                = (?h1 @ [FloatBuf (map Fin (data ?kr))],
                   \<lparr>buf = length ?h1, ashape = shape ?kr\<rparr>)"
        by (simp only: pure_kernel_def rm option.case alloc_floats_def)
      have rb: "\<lparr>shape = shape ?kr, data = data ?kr\<rparr> = ?kr"
        by simp
      show ?thesis
      proof (cases "reshape ?kr (map length edges)")
        case (Inl e)
        then show ?thesis
          using Inr he mesh
          by (simp add: kmc_kernel_estimator_st_def kc pk rb kmc_kernel_estimator_def
              kmc_kernel_def image_iff nth_append_two comp_def)
      next
        case k': (Inr kernel')
        show ?thesis
          using Inr he mesh k' sp
          by (auto simp: kmc_kernel_estimator_st_def kc pk rb kmc_kernel_estimator_def
              kmc_kernel_def image_iff Let_def alloc_floats_def nth_append_two comp_def
              nth_append
              split: sum.splits)
      qed
    qed
  qed
qed

section \<open>The claims\<close>

text \<open>
  C8, as the code has it. For every list of \<open>D \<ge> 1\<close> coordinate sequences,
  \<open>cartesian_product\<close> returns an array of shape (product of the lengths, \<open>D\<close>) whose rows
  are the elements of the Cartesian product of the sequences, in the order of a row-major
  flattening of an array of shape \<open>(len(arrays[0]), ..., len(arrays[D-1]))\<close>: the row at
  the row-major offset of a multi-index \<open>idx\<close> is
  \<open>[arrays[0][idx[0]], ..., arrays[D-1][idx[D-1]]]\<close>. No row occurs twice if no sequence
  has an entry twice, in whatever order its entries are; and if the sequences are non-empty
  and no row occurs twice, then no sequence has an entry twice. For \<open>D = 1\<close> the data of
  the result are the single sequence, as a column. The entries are the \<open>float64\<close> values
  that the assignment to \<open>arr\<close> stores.
\<close>

theorem cartesian_product_row_major:
  assumes "arrays \<noteq> []"
  shows "\<exists>m. cartesian_product arrays = Inr m
     \<and> shape m = [prod_list (map length arrays), length arrays]
     \<and> rows m = product_lists arrays
     \<and> ((\<forall>a\<in>set arrays. distinct a) \<longrightarrow> distinct (rows m))
     \<and> ((\<forall>a\<in>set arrays. a \<noteq> []) \<and> distinct (rows m) \<longrightarrow> (\<forall>a\<in>set arrays. distinct a))
     \<and> (\<forall>idx. list_all2 (<) idx (map length arrays) \<longrightarrow>
          rows m ! ravel_multi_index idx (map length arrays) = map2 (!) arrays idx)
     \<and> (\<forall>xs. arrays = [xs] \<longrightarrow> data m = xs)"
proof -
  from cartesian_product_rows[OF assms(1)] obtain m where
    m: "cartesian_product arrays = Inr m"
       "shape m = [prod_list (map length arrays), length arrays]"
       "rows m = product_lists arrays"
    by blast
  have d: "distinct (rows m)" if "\<forall>a\<in>set arrays. distinct a"
    unfolding m(3) using that by (rule distinct_product_lists)
  have c: "\<forall>a\<in>set arrays. distinct a" if "\<forall>a\<in>set arrays. a \<noteq> []" "distinct (rows m)"
    using that distinct_product_lists_iff[of arrays] by (simp add: m(3))
  have r: "rows m ! ravel_multi_index idx (map length arrays) = map2 (!) arrays idx"
    if "list_all2 (<) idx (map length arrays)" for idx
    using that ravel_less[OF that]
    by (simp add: m(3) product_lists_ndindex length_ndindex ndindex_nth_ravel)
  have p: "data m = xs" if "arrays = [xs]" for xs
  proof -
    have "cartesian_product [xs] = Inr \<lparr>shape = [length xs, 1], data = xs\<rparr>"
      by (simp add: cartesian_product_def reshape_infer_def fromfunction_def
          concat_map_singleton comp_def map_nth)
    with m(1) that show ?thesis by auto
  qed
  from m d c r p show ?thesis by blast
qed

theorem cartesian_product_row_major_witness:
  "\<exists>m. cartesian_product [[1, 0], [5, 7, 6]] = Inr m
     \<and> shape m = [6, 2]
     \<and> rows m = [[1, 5], [1, 7], [1, 6], [0, 5], [0, 7], [0, 6]]
     \<and> distinct (rows m)
     \<and> rows m ! ravel_multi_index [1, 2] [2, 3] = [0, 6]"
proof -
  have "[[1, 0], [5, 7, 6 :: real]] \<noteq> []" by simp
  from cartesian_product_row_major[OF this] obtain m where
    "cartesian_product [[1, 0], [5, 7, 6]] = Inr m"
    "shape m = [prod_list (map length [[1, 0], [5, 7, 6 :: real]]), 2]"
    "rows m = product_lists [[1, 0], [5, 7, 6]]"
    "(\<forall>a\<in>set [[1, 0], [5, 7, 6 :: real]]. distinct a) \<longrightarrow> distinct (rows m)"
    by auto
  then show ?thesis by (intro exI[of _ m]) simp
qed

text \<open>
  C8 as stated fails: the single sequence 1, 1 is non-empty and ordered, and the
  result has the row \<open>[1]\<close> twice.
\<close>

theorem cartesian_product_row_major_counterexample:
  "sorted [1, 1 :: real]
   \<and> (\<exists>m. cartesian_product [[1, 1]] = Inr m \<and> rows m = [[1], [1]] \<and> \<not> distinct (rows m))"
proof -
  have "cartesian_product [[1, 1]] = Inr \<lparr>shape = [2, 1], data = [1, 1]\<rparr>"
    by code_simp
  moreover have "rows \<lparr>shape = [2, 1], data = [1, 1 :: real]\<rparr> = [[1], [1]]"
    by code_simp
  ultimately show ?thesis by simp
qed

text \<open>
  C1, as the code has it. For every valid input (a timeseries of shape \<open>(N, D)\<close> with
  \<open>N \<ge> 2\<close>, \<open>D\<close> positive bin counts, a powers matrix of \<open>D\<close> rows and \<open>K \<ge> 1\<close> columns,
  a kernel that returns one scalar per mesh point) the estimator returns a result of shape
  \<open>(bins[0] + 1, ..., bins[D-1] + 1, K)\<close> together with \<open>D\<close> edge sequences, the
  sequence of dimension \<open>d\<close> of length \<open>bins[d] + 1\<close>: \<open>convolve\<close> in mode \<open>same\<close> returns
  the shape of its first argument, the kernel field, which has one entry per edge.
\<close>

theorem estimator_result_shape:
  assumes "valid_shapes timeseries bins powers"
    and "kernel_sized timeseries bins kernel_fn bw powers"
  shows "\<exists>res edges.
      kmc_kernel_estimator timeseries bins kernel_fn bw powers = Inr (res, edges)
    \<and> shape res = map (\<lambda>b. b + 1) bins @ [shape powers ! 1]
    \<and> wf_array res
    \<and> length edges = shape timeseries ! 1
    \<and> (\<forall>d < shape timeseries ! 1. length (edges ! d) = bins ! d + 1)"
proof -
  from kmc_histogram_runs[OF assms(1)] obtain hist edges where
    h: "kmc_histogram timeseries bins powers = Inr (hist, edges)" by blast
  note e = kmc_histogram_shapes[OF assms(1) h]
  from kmc_kernel_runs[OF assms h] obtain kernel' where
    k: "kmc_kernel edges kernel_fn bw = Inr kernel'" "shape kernel' = map Suc bins"
    by auto
  from estimator_runs[OF assms(1) h k] obtain res where
    r: "kmc_kernel_estimator timeseries bins kernel_fn bw powers = Inr (res, edges)"
       "shape res = map Suc bins @ [shape powers ! 1]" "wf_array res"
    by blast
  have D: "length bins = shape timeseries ! 1"
    using valid_shapesD(3)[OF assms(1)] .
  have "length (edges ! d) = bins ! d + 1" if "d < shape timeseries ! 1" for d
  proof -
    have "map length edges ! d = map Suc bins ! d" using e(2) by simp
    with that D e(3) show ?thesis by simp
  qed
  with r e(3) D show ?thesis by auto
qed

theorem estimator_result_shape_witness:
  "\<exists>res edges.
      kmc_kernel_estimator \<lparr>shape = [4, 2], data = [0, 0, 1, 2, 3, 3, 2, 5]\<rparr> [2, 3]
        uniform_kernel 1 \<lparr>shape = [2, 3], data = [0, 1, 2, 0, 0, 1]\<rparr> = Inr (res, edges)
    \<and> shape res = [3, 4, 3] \<and> length edges = 2
    \<and> length (edges ! 0) = 3 \<and> length (edges ! 1) = 4"
proof -
  have v: "valid_shapes \<lparr>shape = [4, 2], data = [0, 0, 1, 2, 3, 3, 2, 5]\<rparr> [2, 3]
             \<lparr>shape = [2, 3], data = [0, 1, 2, 0, 0, 1]\<rparr>"
    by code_simp
  have k: "kernel_sized \<lparr>shape = [4, 2], data = [0, 0, 1, 2, 3, 3, 2, 5]\<rparr> [2, 3]
             uniform_kernel 1 \<lparr>shape = [2, 3], data = [0, 1, 2, 0, 0, 1]\<rparr>"
    by code_simp
  from estimator_result_shape[OF v k] obtain res edges where
    r: "kmc_kernel_estimator \<lparr>shape = [4, 2], data = [0, 0, 1, 2, 3, 3, 2, 5]\<rparr> [2, 3]
          uniform_kernel 1 \<lparr>shape = [2, 3], data = [0, 1, 2, 0, 0, 1]\<rparr> = Inr (res, edges)"
       "shape res = map (\<lambda>b. b + 1) [2, 3] @ [3]" "length edges = 2"
       "\<forall>d < 2. length (edges ! d) = [2, 3] ! d + 1"
    by auto
  from r(4) have "length (edges ! 0) = 3" "length (edges ! 1) = 4"
    by simp_all
  with r(1,2,3) show ?thesis by simp
qed

text \<open>
  C1 as stated fails: for three samples in one dimension, \<open>bins = [2]\<close> and one channel
  the result has shape \<open>(3, 1)\<close>, not \<open>(2, 1)\<close>.
\<close>

theorem estimator_result_shape_counterexample:
  "valid_shapes \<lparr>shape = [3, 1], data = [0, 1, 3]\<rparr> [2] \<lparr>shape = [1, 1], data = [1]\<rparr>
   \<and> kernel_sized \<lparr>shape = [3, 1], data = [0, 1, 3]\<rparr> [2] uniform_kernel 1
         \<lparr>shape = [1, 1], data = [1]\<rparr>
   \<and> kernel_sum \<lparr>shape = [3, 1], data = [0, 1, 3]\<rparr> [2] uniform_kernel 1
         \<lparr>shape = [1, 1], data = [1]\<rparr> = 3
   \<and> (\<exists>res edges.
         kmc_kernel_estimator \<lparr>shape = [3, 1], data = [0, 1, 3]\<rparr> [2] uniform_kernel 1
           \<lparr>shape = [1, 1], data = [1]\<rparr> = Inr (res, edges)
       \<and> shape res = [3, 1] \<and> shape res \<noteq> [2] @ [1] \<and> map length edges = [3])"
proof -
  have e: "kmc_kernel_estimator \<lparr>shape = [3, 1], data = [0, 1, 3]\<rparr> [2] uniform_kernel 1
         \<lparr>shape = [1, 1], data = [1]\<rparr>
       = Inr (\<lparr>shape = [3, 1], data = [Fin (1 / 6), Fin (1 / 2), Fin (1 / 2)]\<rparr>,
              [[1, 2, 3]])"
    by code_simp
  have v: "valid_shapes \<lparr>shape = [3, 1], data = [0, 1, 3]\<rparr> [2] \<lparr>shape = [1, 1], data = [1]\<rparr>
   \<and> kernel_sized \<lparr>shape = [3, 1], data = [0, 1, 3]\<rparr> [2] uniform_kernel 1
         \<lparr>shape = [1, 1], data = [1]\<rparr>
   \<and> kernel_sum \<lparr>shape = [3, 1], data = [0, 1, 3]\<rparr> [2] uniform_kernel 1
         \<lparr>shape = [1, 1], data = [1]\<rparr> = 3"
    by code_simp
  show ?thesis unfolding e using v by simp
qed

text \<open>
  C3, as the code has it. For every timeseries of shape \<open>(N, D)\<close> and every powers matrix
  of shape \<open>(D, K)\<close>, the weights form an \<open>(N - 1, K)\<close> array whose entry \<open>(i, k)\<close> is the
  product over the dimensions \<open>d\<close> of \<open>increments[i, d]\<close> raised to \<open>powers[d, k]\<close>:
  column \<open>k\<close> of the powers matrix defines the moment of channel \<open>k\<close>.
\<close>

theorem weights_are_column_moments:
  assumes "shape timeseries = [N, D]" and "shape powers = [D, K]"
  shows "\<exists>grads weights.
      diff_axis0 timeseries = Inr grads
    \<and> shape grads = [N - 1, D]
    \<and> (\<forall>i d. i < N - 1 \<and> d < D \<longrightarrow>
          item grads [i, d] = item timeseries [i + 1, d] - item timeseries [i, d])
    \<and> kmc_weights timeseries powers = Inr weights
    \<and> shape weights = [N - 1, K] \<and> wf_array weights
    \<and> (\<forall>i k. i < N - 1 \<and> k < K \<longrightarrow>
          item weights [i, k]
          = fprod (map (\<lambda>d. fpow (item grads [i, d]) (item powers [d, k])) [0..<D]))"
proof -
  from diff_axis0_item[OF assms(1)] obtain g where
    g: "diff_axis0 timeseries = Inr g" "shape g = [N - 1, D]"
       "\<forall>i d. i < N - 1 \<and> d < D \<longrightarrow>
          item g [i, d] = item timeseries [i + 1, d] - item timeseries [i, d]"
    by blast
  from kmc_weights_item[OF assms] obtain w where
    w: "kmc_weights timeseries powers = Inr w" "shape w = [N - 1, K]" "wf_array w"
       "\<forall>i k. i < N - 1 \<and> k < K \<longrightarrow>
          item w [i, k]
          = fprod (map (\<lambda>d. fpow (item timeseries [i + 1, d] - item timeseries [i, d])
                                (item powers [d, k])) [0..<D])"
    by blast
  have "item w [i, k] = fprod (map (\<lambda>d. fpow (item g [i, d]) (item powers [d, k])) [0..<D])"
    if "i < N - 1" "k < K" for i k
  proof -
    have eq: "map (\<lambda>d. fpow (item g [i, d]) (item powers [d, k])) [0..<D]
          = map (\<lambda>d. fpow (item timeseries [i + 1, d] - item timeseries [i, d])
                          (item powers [d, k])) [0..<D]"
      using that g(3) by (intro map_cong) auto
    have "item w [i, k]
          = fprod (map (\<lambda>d. fpow (item timeseries [i + 1, d] - item timeseries [i, d])
                                (item powers [d, k])) [0..<D])"
      using w(4) that by blast
    then show ?thesis unfolding eq .
  qed
  with g w(1,2,3) show ?thesis by blast
qed

theorem weights_are_column_moments_witness:
  "\<exists>grads weights.
      diff_axis0 \<lparr>shape = [3, 2], data = [0, 0, 1, 2, 3, 3]\<rparr> = Inr grads
    \<and> item grads [1, 0] = 2 \<and> item grads [1, 1] = 1
    \<and> kmc_weights \<lparr>shape = [3, 2], data = [0, 0, 1, 2, 3, 3]\<rparr>
        \<lparr>shape = [2, 3], data = [0, 1, 2, 0, 0, 1]\<rparr> = Inr weights
    \<and> shape weights = [2, 3]
    \<and> item weights [1, 2] = Fin 4"
proof -
  from weights_are_column_moments[of "\<lparr>shape = [3, 2], data = [0, 0, 1, 2, 3, 3]\<rparr>" 3 2
      "\<lparr>shape = [2, 3], data = [0, 1, 2, 0, 0, 1]\<rparr>" 3]
  obtain grads weights where
    r: "diff_axis0 \<lparr>shape = [3, 2], data = [0, 0, 1, 2, 3, 3]\<rparr> = Inr grads"
       "\<forall>i d. i < 2 \<and> d < 2 \<longrightarrow>
          item grads [i, d] = item \<lparr>shape = [3, 2], data = [0, 0, 1, 2, 3, 3 :: real]\<rparr> [i + 1, d]
                              - item \<lparr>shape = [3, 2], data = [0, 0, 1, 2, 3, 3]\<rparr> [i, d]"
       "kmc_weights \<lparr>shape = [3, 2], data = [0, 0, 1, 2, 3, 3]\<rparr>
          \<lparr>shape = [2, 3], data = [0, 1, 2, 0, 0, 1]\<rparr> = Inr weights"
       "shape weights = [2, 3]"
       "\<forall>i k. i < 2 \<and> k < 3 \<longrightarrow>
          item weights [i, k]
          = fprod (map (\<lambda>d. fpow (item grads [i, d])
                 (item \<lparr>shape = [2, 3], data = [0, 1, 2, 0, 0, 1 :: int]\<rparr> [d, k])) [0..<2])"
    by auto
  have g: "item grads [1, 0] = 2" "item grads [1, 1] = 1"
    using r(2) by (simp_all add: item_def)
  have "item weights [1, 2] = Fin 4"
    using r(5) g by (simp add: item_def fprod_def fpow_def upt_rec)
  with r(1,3,4) g show ?thesis by blast
qed

text \<open>
  C3 as stated fails: with the increment row \<open>(1, 2)\<close> and the powers \<open>[[0, 1], [0, 0]]\<close>,
  read as \<open>K = 2\<close> rows over \<open>D = 2\<close> dimensions, the claim gives the weight
  \<open>1^0 * 2^1 = 2\<close> to channel 0; the code computes \<open>1^0 * 2^0 = 1\<close>.
\<close>

theorem weights_are_column_moments_counterexample:
  "diff_axis0 \<lparr>shape = [2, 2], data = [0, 0, 1, 2]\<rparr> = Inr \<lparr>shape = [1, 2], data = [1, 2]\<rparr>
   \<and> kmc_weights \<lparr>shape = [2, 2], data = [0, 0, 1, 2]\<rparr> \<lparr>shape = [2, 2], data = [0, 1, 0, 0]\<rparr>
       = Inr \<lparr>shape = [1, 2], data = [Fin 1, Fin 1]\<rparr>
   \<and> fprod (map (\<lambda>d. fpow (item \<lparr>shape = [1, 2], data = [1, 2]\<rparr> [0, d])
                         (item \<lparr>shape = [2, 2], data = [0, 1, 0, 0]\<rparr> [0, d])) [0..<2])
       = Fin 2
   \<and> item \<lparr>shape = [1, 2], data = [Fin 1, Fin 1]\<rparr> [0, 0]
       \<noteq> fprod (map (\<lambda>d. fpow (item \<lparr>shape = [1, 2], data = [1, 2]\<rparr> [0, d])
                         (item \<lparr>shape = [2, 2], data = [0, 1, 0, 0]\<rparr> [0, d])) [0..<2])"
  by code_simp

text \<open>
  C5, as the code has it. For every valid input, the mesh at which the kernel is evaluated
  is the Cartesian product of the edge sequences: it has one row of \<open>D\<close> coordinates for
  each of the \<open>(bins[0] + 1) * ... * (bins[D-1] + 1)\<close> combinations of edges, and the
  kernel field has the shape \<open>(bins[0] + 1, ..., bins[D-1] + 1)\<close>.
\<close>

theorem mesh_and_kernel_field_shape:
  assumes "valid_shapes timeseries bins powers"
    and "kernel_sized timeseries bins kernel_fn bw powers"
  shows "\<exists>hist edges mesh kernel'.
      kmc_histogram timeseries bins powers = Inr (hist, edges)
    \<and> cartesian_product edges = Inr mesh
    \<and> shape mesh = [prod_list (map (\<lambda>b. b + 1) bins), shape timeseries ! 1]
    \<and> rows mesh = product_lists edges
    \<and> length (rows mesh) = prod_list (map (\<lambda>b. b + 1) bins)
    \<and> (\<forall>r \<in> set (rows mesh). length r = shape timeseries ! 1)
    \<and> kmc_kernel edges kernel_fn bw = Inr kernel'
    \<and> shape kernel' = map (\<lambda>b. b + 1) bins"
proof -
  from kmc_histogram_runs[OF assms(1)] obtain hist edges where
    h: "kmc_histogram timeseries bins powers = Inr (hist, edges)" by blast
  note e = kmc_histogram_shapes[OF assms(1) h]
  have D: "length bins = shape timeseries ! 1"
    using valid_shapesD(3)[OF assms(1)] .
  from kmc_kernel_runs[OF assms h] obtain mesh where
    m: "cartesian_product edges = Inr mesh"
       "shape mesh = [prod_list (map Suc bins), length bins]"
       "rows mesh = product_lists edges"
       "kmc_kernel edges kernel_fn bw
        = Inr (normalise \<lparr>shape = map Suc bins, data = data (kernel_fn mesh bw)\<rparr>)"
    by blast
  have 1: "length (rows mesh) = prod_list (map Suc bins)"
    using m(2) by (simp add: rows_def)
  have 2: "\<forall>r \<in> set (rows mesh). length r = shape timeseries ! 1"
    using m(3) e(3) D by (auto dest: in_set_product_lists_length)
  from h m(1,2,3,4) 1 2 D show ?thesis by simp
qed

theorem mesh_and_kernel_field_shape_witness:
  "\<exists>hist edges mesh kernel'.
      kmc_histogram \<lparr>shape = [4, 2], data = [0, 0, 1, 2, 3, 3, 2, 5]\<rparr> [2, 3]
        \<lparr>shape = [2, 3], data = [0, 1, 2, 0, 0, 1]\<rparr> = Inr (hist, edges)
    \<and> cartesian_product edges = Inr mesh
    \<and> shape mesh = [12, 2]
    \<and> kmc_kernel edges uniform_kernel 1 = Inr kernel'
    \<and> shape kernel' = [3, 4]"
proof -
  have v: "valid_shapes \<lparr>shape = [4, 2], data = [0, 0, 1, 2, 3, 3, 2, 5]\<rparr> [2, 3]
             \<lparr>shape = [2, 3], data = [0, 1, 2, 0, 0, 1]\<rparr>"
    by code_simp
  have k: "kernel_sized \<lparr>shape = [4, 2], data = [0, 0, 1, 2, 3, 3, 2, 5]\<rparr> [2, 3]
             uniform_kernel 1 \<lparr>shape = [2, 3], data = [0, 1, 2, 0, 0, 1]\<rparr>"
    by code_simp
  from mesh_and_kernel_field_shape[OF v k] obtain hist edges mesh kernel' where
    "kmc_histogram \<lparr>shape = [4, 2], data = [0, 0, 1, 2, 3, 3, 2, 5]\<rparr> [2, 3]
        \<lparr>shape = [2, 3], data = [0, 1, 2, 0, 0, 1]\<rparr> = Inr (hist, edges)"
    "cartesian_product edges = Inr mesh"
    "shape mesh = [prod_list (map (\<lambda>b. b + 1) [2, 3]), 2]"
    "kmc_kernel edges uniform_kernel 1 = Inr kernel'"
    "shape kernel' = map (\<lambda>b. b + 1) [2, 3]"
    by auto
  then show ?thesis by simp
qed

text \<open>
  C5 as stated fails: for \<open>bins = [2]\<close> the mesh has the three rows 1, 2, 3 (the
  edges), not two, and the kernel field has shape \<open>(3)\<close>.
\<close>

theorem mesh_and_kernel_field_shape_counterexample:
  "kmc_mesh \<lparr>shape = [3, 1], data = [0, 1, 3]\<rparr> [2] \<lparr>shape = [1, 1], data = [1]\<rparr>
     = Inr \<lparr>shape = [3, 1], data = [1, 2, 3]\<rparr>
   \<and> (3 :: nat) \<noteq> prod_list [2]
   \<and> kmc_kernel [[1, 2, 3]] uniform_kernel 1
     = Inr \<lparr>shape = [3], data = [Fin (1 / 3), Fin (1 / 3), Fin (1 / 3)]\<rparr>
   \<and> [3] \<noteq> [2 :: nat]"
  by code_simp

text \<open>
  C2, as the code has it. For every valid input, the weighted histogram that gets smoothed
  is a histogram of the sample positions: each of the \<open>N - 1\<close> rows binned is a row
  \<open>timeseries[i + 1]\<close>, binned with the same edges for all \<open>K\<close> channels and weighted by
  the weight of increment \<open>i\<close> in the channel. The cell \<open>cell\<close> of channel \<open>k\<close> holds the
  sum of \<open>weights[i, k]\<close> over the \<open>i\<close> whose position \<open>timeseries[i + 1]\<close> falls in the
  cell, over \<open>(N - 1) * cell volume\<close>.
\<close>

theorem histogram_bins_positions:
  assumes "valid_shapes timeseries bins powers"
  shows "\<exists>weights sample hist edges.
      kmc_weights timeseries powers = Inr weights
    \<and> drop_first timeseries = Inr sample
    \<and> shape sample = [shape timeseries ! 0 - 1, shape timeseries ! 1]
    \<and> (\<forall>i < shape timeseries ! 0 - 1. rows sample ! i = rows timeseries ! (i + 1))
    \<and> kmc_histogram timeseries bins powers = Inr (hist, edges)
    \<and> histogramdd sample bins weights = Inr (hist, edges)
    \<and> (\<forall>cell k. list_all2 (<) cell bins \<and> k < shape powers ! 1 \<longrightarrow>
          item hist (cell @ [k])
          = fdiv (fsum (map (\<lambda>i. item weights [i, k])
                    (filter (\<lambda>i. map2 bin_of edges (rows timeseries ! (i + 1)) = cell)
                       [0..<shape timeseries ! 0 - 1])))
                 (real (shape timeseries ! 0 - 1) * cell_volume edges))"
proof -
  let ?N = "shape timeseries ! 0" and ?D = "shape timeseries ! 1" and ?K = "shape powers ! 1"
  note v = valid_shapesD[OF assms]
  from kmc_histogram_runs[OF assms] obtain w s h e where
    r: "kmc_weights timeseries powers = Inr w" "shape w = [?N - 1, ?K]"
       "drop_first timeseries = Inr s" "shape s = [?N - 1, ?D]"
       "histogramdd s bins w = Inr (h, e)"
       "kmc_histogram timeseries bins powers = Inr (h, e)"
    by blast
  have rw: "rows s ! i = rows timeseries ! (i + 1)" if "i < ?N - 1" for i
    using rows_drop_first[OF v(1) r(3) that] .
  from histogramdd_item[OF r(4) r(2) v(3)] r(5)
  have it: "item h (cell @ [k])
            = fdiv (fsum (map (\<lambda>i. item w [i, k])
                      (filter (\<lambda>i. map2 bin_of e (rows s ! i) = cell) [0..<?N - 1])))
                   (real (?N - 1) * cell_volume e)"
    if "list_all2 (<) cell bins" "k < ?K" for cell k
    using that by auto
  have "item h (cell @ [k])
            = fdiv (fsum (map (\<lambda>i. item w [i, k])
                      (filter (\<lambda>i. map2 bin_of e (rows timeseries ! (i + 1)) = cell)
                         [0..<?N - 1])))
                   (real (?N - 1) * cell_volume e)"
    if "list_all2 (<) cell bins" "k < ?K" for cell k
  proof -
    have "filter (\<lambda>i. map2 bin_of e (rows s ! i) = cell) [0..<?N - 1]
          = filter (\<lambda>i. map2 bin_of e (rows timeseries ! (i + 1)) = cell) [0..<?N - 1]"
      using rw by (intro filter_cong) auto
    with it[OF that] show ?thesis by simp
  qed
  with r(1,3,4,5,6) rw show ?thesis by blast
qed

theorem histogram_bins_positions_witness:
  "\<exists>weights sample hist edges.
      kmc_weights \<lparr>shape = [4, 2], data = [0, 0, 1, 2, 3, 3, 2, 5]\<rparr>
        \<lparr>shape = [2, 3], data = [0, 1, 2, 0, 0, 1]\<rparr> = Inr weights
    \<and> drop_first \<lparr>shape = [4, 2], data = [0, 0, 1, 2, 3, 3, 2, 5 :: real]\<rparr> = Inr sample
    \<and> rows sample = [[1, 2], [3, 3], [2, 5]]
    \<and> kmc_histogram \<lparr>shape = [4, 2], data = [0, 0, 1, 2, 3, 3, 2, 5]\<rparr> [2, 3]
        \<lparr>shape = [2, 3], data = [0, 1, 2, 0, 0, 1]\<rparr> = Inr (hist, edges)
    \<and> edges = [[1, 2, 3], [2, 3, 4, 5]]
    \<and> item hist [1, 1, 2] = Fin (4 / 3)"
proof -
  let ?ts = "\<lparr>shape = [4, 2], data = [0, 0, 1, 2, 3, 3, 2, 5 :: real]\<rparr>"
  let ?pw = "\<lparr>shape = [2, 3], data = [0, 1, 2, 0, 0, 1 :: int]\<rparr>"
  have v: "valid_shapes ?ts [2, 3] ?pw"
    by code_simp
  have w: "kmc_weights ?ts ?pw
           = Inr \<lparr>shape = [3, 3], data = [Fin 1, Fin 1, Fin 2, Fin 1, Fin 2, Fin 4,
                                           Fin 1, Fin (- 1), Fin 2]\<rparr>"
    by code_simp
  have s: "drop_first ?ts = Inr \<lparr>shape = [3, 2], data = [1, 2, 3, 3, 2, 5]\<rparr>"
    by code_simp
  have e: "kmc_histogram ?ts [2, 3] ?pw
           = Inr (\<lparr>shape = [2, 3, 3],
                   data = [Fin (1 / 3), Fin (1 / 3), Fin (2 / 3), Fin 0, Fin 0, Fin 0,
                           Fin 0, Fin 0, Fin 0, Fin 0, Fin 0, Fin 0,
                           Fin (1 / 3), Fin (2 / 3), Fin (4 / 3),
                           Fin (1 / 3), Fin (- (1 / 3)), Fin (2 / 3)]\<rparr>,
                  [[1, 2, 3], [2, 3, 4, 5]])"
    by code_simp
  from histogram_bins_positions[OF v] w s e obtain hist where
    h: "kmc_histogram ?ts [2, 3] ?pw = Inr (hist, [[1, 2, 3], [2, 3, 4, 5]])"
       "\<forall>cell k. list_all2 (<) cell [2, 3] \<and> k < 3 \<longrightarrow>
          item hist (cell @ [k])
          = fdiv (fsum (map (\<lambda>i. item \<lparr>shape = [3, 3], data = [Fin 1, Fin 1, Fin 2, Fin 1,
                                   Fin 2, Fin 4, Fin 1, Fin (- 1), Fin 2]\<rparr> [i, k])
                    (filter (\<lambda>i. map2 bin_of [[1, 2, 3], [2, 3, 4, 5]] (rows ?ts ! (i + 1)) = cell)
                       [0..<3])))
                 (real (3 :: nat) * cell_volume [[1, 2, 3], [2, 3, 4, 5]])"
    by auto
  have "item hist ([1, 1] @ [2]) = Fin (4 / 3)"
    using h(2)[rule_format, of "[1, 1]" 2]
    by (simp add: rows_def item_def bin_of_def cell_volume_def fsum_def upt_rec)
  with w s h(1) show ?thesis
    by (simp add: rows_def upt_rec)
qed

text \<open>
  C2 as stated fails: for the samples 0, 1, 3 the increments are 1, 2; their histogram
  with two bins has the edges 1, 1.5, 2, and the estimator's histogram has the edges
  1, 2, 3 of the positions 1, 3.
\<close>

theorem histogram_bins_positions_counterexample:
  "diff_axis0 \<lparr>shape = [3, 1], data = [0, 1, 3]\<rparr> = Inr \<lparr>shape = [2, 1], data = [1, 2]\<rparr>
   \<and> kmc_weights \<lparr>shape = [3, 1], data = [0, 1, 3]\<rparr> \<lparr>shape = [1, 1], data = [1]\<rparr>
       = Inr \<lparr>shape = [2, 1], data = [Fin 1, Fin 2]\<rparr>
   \<and> (\<exists>h1 h2.
         histogramdd \<lparr>shape = [2, 1], data = [1, 2]\<rparr> [2]
           \<lparr>shape = [2, 1], data = [Fin 1, Fin 2]\<rparr> = Inr (h1, [[1, 3 / 2, 2]])
       \<and> kmc_histogram \<lparr>shape = [3, 1], data = [0, 1, 3]\<rparr> [2]
           \<lparr>shape = [1, 1], data = [1]\<rparr> = Inr (h2, [[1, 2, 3]]))
   \<and> kmc_histogram \<lparr>shape = [3, 1], data = [0, 1, 3]\<rparr> [2] \<lparr>shape = [1, 1], data = [1]\<rparr>
       \<noteq> histogramdd \<lparr>shape = [2, 1], data = [1, 2]\<rparr> [2]
            \<lparr>shape = [2, 1], data = [Fin 1, Fin 2]\<rparr>"
proof -
  have a: "histogramdd \<lparr>shape = [2, 1], data = [1, 2]\<rparr> [2]
             \<lparr>shape = [2, 1], data = [Fin 1, Fin 2]\<rparr>
           = Inr (\<lparr>shape = [2, 1], data = [Fin 1, Fin 2]\<rparr>, [[1, 3 / 2, 2]])"
    by code_simp
  have b: "kmc_histogram \<lparr>shape = [3, 1], data = [0, 1, 3]\<rparr> [2]
             \<lparr>shape = [1, 1], data = [1]\<rparr>
           = Inr (\<lparr>shape = [2, 1], data = [Fin (1 / 2), Fin 1]\<rparr>, [[1, 2, 3]])"
    by code_simp
  have c: "diff_axis0 \<lparr>shape = [3, 1], data = [0, 1, 3]\<rparr>
             = Inr \<lparr>shape = [2, 1], data = [1, 2]\<rparr>
           \<and> kmc_weights \<lparr>shape = [3, 1], data = [0, 1, 3]\<rparr> \<lparr>shape = [1, 1], data = [1]\<rparr>
             = Inr \<lparr>shape = [2, 1], data = [Fin 1, Fin 2]\<rparr>"
    by code_simp
  show ?thesis unfolding a b using c by simp
qed

text \<open>
  C4, as the code has it. For every input, valid but for its kernel, whose kernel returns
  a field summing to zero, the estimator raises nothing: the normalisation divides by
  zero, and the call returns a result of the usual shape whose entries are all non-finite
  (\<open>nan\<close> or infinite).
\<close>

theorem degenerate_kernel_returns_nonfinite:
  assumes "valid_shapes timeseries bins powers"
    and "kernel_sized timeseries bins kernel_fn bw powers"
    and "kernel_sum timeseries bins kernel_fn bw powers = 0"
  shows "\<exists>res edges.
      kmc_kernel_estimator timeseries bins kernel_fn bw powers = Inr (res, edges)
    \<and> shape res = map (\<lambda>b. b + 1) bins @ [shape powers ! 1]
    \<and> wf_array res
    \<and> (\<forall>x\<in>set (data res). x = NonFin)"
proof -
  let ?K = "shape powers ! 1"
  from kmc_histogram_runs[OF assms(1)] obtain hist edges where
    h: "kmc_histogram timeseries bins powers = Inr (hist, edges)" by blast
  from kmc_kernel_runs[OF assms(1,2) h] obtain mesh where
    m: "kmc_kernel edges kernel_fn bw
        = Inr (normalise \<lparr>shape = map Suc bins, data = data (kernel_fn mesh bw)\<rparr>)"
       "length (data (kernel_fn mesh bw)) = prod_list (map Suc bins)"
       "kernel_sum timeseries bins kernel_fn bw powers = sum_list (data (kernel_fn mesh bw))"
    by blast
  let ?k = "normalise \<lparr>shape = map Suc bins, data = data (kernel_fn mesh bw)\<rparr>"
  have sk: "shape ?k = map Suc bins" by simp
  have wk: "wf_array ?k" using m(2) by (simp add: wf_array_def normalise_def)
  have nk: "\<forall>x\<in>set (data ?k). x = NonFin"
    using m(3) assms(3) by (simp add: normalise_def)
  from estimator_runs[OF assms(1) h m(1) sk] obtain kmc res where
    r: "\<forall>k < ?K. \<exists>hk. channel hist k = Inr hk \<and> shape hk = bins
            \<and> convolve_same ?k hk = Inr (kmc ! k) \<and> shape (kmc ! k) = map Suc bins"
       "kmc_kernel_estimator timeseries bins kernel_fn bw powers = Inr (res, edges)"
       "shape res = map Suc bins @ [?K]" "wf_array res"
       "\<forall>k < ?K. channel res k = Inr (kmc ! k)"
    by blast
  have pos: "\<forall>s\<in>set bins. 1 \<le> s"
    using assms(1) by (simp add: valid_shapes_def list_all_iff)
  have ck: "\<forall>x\<in>set (data (kmc ! k)). x = NonFin" if "k < ?K" for k
  proof -
    from r(1) that obtain hk where
      hk: "shape hk = bins" "convolve_same ?k hk = Inr (kmc ! k)" by blast
    have len: "length (shape hk) = length (shape ?k)" using hk(1) by simp
    then have "kmc ! k = fromfunction (shape ?k)
                  (\<lambda>n. full_convolution_at ?k hk
                         (map2 (+) n (map (\<lambda>s. (s - 1) div 2) (shape hk))))"
      using hk(2) by (simp add: convolve_same_def)
    moreover have "\<forall>x\<in>set (data (fromfunction (shape ?k)
                  (\<lambda>n. full_convolution_at ?k hk
                         (map2 (+) n (map (\<lambda>s. (s - 1) div 2) (shape hk)))))). x = NonFin"
    proof (rule data_fromfunction_all)
      fix n assume "list_all2 (<) n (shape ?k)"
      from full_convolution_NonFin[OF wk nk this len] pos hk(1)
      show "full_convolution_at ?k hk (map2 (+) n (map (\<lambda>s. (s - 1) div 2) (shape hk)))
            = NonFin" by simp
    qed
    ultimately show ?thesis by simp
  qed
  have "\<forall>x\<in>set (data res). x = NonFin"
  proof (rule all_data_by_channels[OF r(4) r(3)])
    show "\<forall>k < ?K. \<exists>c. channel res k = Inr c \<and> (\<forall>x\<in>set (data c). x = NonFin)"
      using r(5) ck by blast
  qed
  with r(2,3,4) show ?thesis by auto
qed

theorem degenerate_kernel_returns_nonfinite_witness:
  "\<exists>res edges.
      kmc_kernel_estimator \<lparr>shape = [4, 2], data = [0, 0, 1, 2, 3, 3, 2, 5]\<rparr> [2, 3]
        zero_kernel 1 \<lparr>shape = [2, 3], data = [0, 1, 2, 0, 0, 1]\<rparr> = Inr (res, edges)
    \<and> shape res = [3, 4, 3] \<and> set (data res) = {NonFin}"
proof -
  let ?ts = "\<lparr>shape = [4, 2], data = [0, 0, 1, 2, 3, 3, 2, 5 :: real]\<rparr>"
  let ?pw = "\<lparr>shape = [2, 3], data = [0, 1, 2, 0, 0, 1 :: int]\<rparr>"
  have v: "valid_shapes ?ts [2, 3] ?pw"
    by code_simp
  have k: "kernel_sized ?ts [2, 3] zero_kernel 1 ?pw"
    by code_simp
  have z: "kernel_sum ?ts [2, 3] zero_kernel 1 ?pw = 0"
    by code_simp
  from degenerate_kernel_returns_nonfinite[OF v k z] obtain res edges where
    r: "kmc_kernel_estimator ?ts [2, 3] zero_kernel 1 ?pw = Inr (res, edges)"
       "shape res = [3, 4, 3]" "wf_array res" "\<forall>x\<in>set (data res). x = NonFin"
    by auto
  from r(2,3) have "data res \<noteq> []" by (auto simp: wf_array_def)
  with r(4) have "set (data res) = {NonFin}"
    by (cases "data res") auto
  with r(1,2) show ?thesis by blast
qed

text \<open>
  C4 as stated fails: with the kernel that is zero at the three mesh points, the
  estimator returns an array of three non-finite values, and no error.
\<close>

theorem degenerate_kernel_returns_nonfinite_counterexample:
  "kernel_sum \<lparr>shape = [3, 1], data = [0, 1, 3]\<rparr> [2] zero_kernel 1
      \<lparr>shape = [1, 1], data = [1]\<rparr> = 0
   \<and> kmc_mesh \<lparr>shape = [3, 1], data = [0, 1, 3]\<rparr> [2] \<lparr>shape = [1, 1], data = [1]\<rparr>
       = Inr \<lparr>shape = [3, 1], data = [1, 2, 3]\<rparr>
   \<and> zero_kernel \<lparr>shape = [3, 1], data = [1, 2, 3]\<rparr> 1 = \<lparr>shape = [3], data = [0, 0, 0]\<rparr>
   \<and> kmc_kernel_estimator \<lparr>shape = [3, 1], data = [0, 1, 3]\<rparr> [2] zero_kernel 1
         \<lparr>shape = [1, 1], data = [1]\<rparr>
       = Inr (\<lparr>shape = [3, 1], data = [NonFin, NonFin, NonFin]\<rparr>, [[1, 2, 3]])"
  by code_simp

text \<open>
  C9, as the code has it. For every valid input, a channel \<open>k\<close> whose powers column is
  entirely zero has per-sample weights all equal to 1, so that channel's weighted
  histogram equals the plain unweighted density histogram of the binned samples
  \<open>timeseries[1:]\<close>, on the same edges.
\<close>

theorem zero_power_column_plain_histogram:
  assumes "valid_shapes timeseries bins powers"
    and "k < shape powers ! 1"
    and "\<forall>d < shape timeseries ! 1. item powers [d, k] = 0"
  shows "\<exists>weights sample hist edges plain.
      kmc_weights timeseries powers = Inr weights
    \<and> (\<forall>i < shape timeseries ! 0 - 1. item weights [i, k] = Fin 1)
    \<and> drop_first timeseries = Inr sample
    \<and> kmc_histogram timeseries bins powers = Inr (hist, edges)
    \<and> histogramdd sample bins
         (fromfunction [shape timeseries ! 0 - 1, 1] (\<lambda>idx. Fin 1)) = Inr (plain, edges)
    \<and> channel hist k = channel plain 0"
proof -
  let ?N = "shape timeseries ! 0" and ?D = "shape timeseries ! 1" and ?K = "shape powers ! 1"
  let ?ones = "fromfunction [?N - 1, 1] (\<lambda>idx. Fin 1 :: f64)"
  note v = valid_shapesD[OF assms(1)]
  from kmc_histogram_runs[OF assms(1)] obtain w s h e where
    r: "kmc_weights timeseries powers = Inr w" "shape w = [?N - 1, ?K]"
       "drop_first timeseries = Inr s" "shape s = [?N - 1, ?D]"
       "histogramdd s bins w = Inr (h, e)"
       "kmc_histogram timeseries bins powers = Inr (h, e)"
       "shape h = bins @ [?K]"
    by blast
  from kmc_weights_item[OF v(1,2)] r(1)
  have wi: "item w [i, k]
            = fprod (map (\<lambda>d. fpow (item timeseries [i + 1, d] - item timeseries [i, d])
                                  (item powers [d, k])) [0..<?D])"
    if "i < ?N - 1" for i
    using that assms(2) by auto
  have w1: "item w [i, k] = Fin 1" if "i < ?N - 1" for i
  proof -
    have "map (\<lambda>d. fpow (item timeseries [i + 1, d] - item timeseries [i, d])
                        (item powers [d, k])) [0..<?D]
          = map (\<lambda>d. Fin 1) [0..<?D]"
      using assms(3) by (intro map_cong) auto
    with wi[OF that] show ?thesis by (simp only: fprod_ones)
  qed
  have so: "shape ?ones = [?N - 1, 1]" by simp
  from histogramdd_item[OF r(4) so v(3)] obtain p e' where
    p: "histogramdd s bins ?ones = Inr (p, e')" "shape p = bins @ [1]"
       "\<forall>cell k. list_all2 (<) cell bins \<and> k < 1 \<longrightarrow>
          item p (cell @ [k])
          = fdiv (fsum (map (\<lambda>i. item ?ones [i, k])
                    (filter (\<lambda>i. map2 bin_of e' (rows s ! i) = cell) [0..<?N - 1])))
                 (real (?N - 1) * cell_volume e')"
    by blast
  have ee: "e' = e" using histogramdd_edges_sample[OF p(1) r(5)] .
  from histogramdd_item[OF r(4) r(2) v(3)] r(5)
  have hi: "item h (cell @ [k])
            = fdiv (fsum (map (\<lambda>i. item w [i, k])
                      (filter (\<lambda>i. map2 bin_of e (rows s ! i) = cell) [0..<?N - 1])))
                   (real (?N - 1) * cell_volume e)"
    if "list_all2 (<) cell bins" for cell
    using that assms(2) by auto
  have eq: "item h (cell @ [k]) = item p (cell @ [0])" if c: "list_all2 (<) cell bins" for cell
  proof -
    let ?is = "filter (\<lambda>i. map2 bin_of e (rows s ! i) = cell) [0..<?N - 1]"
    have m: "map (\<lambda>i. item w [i, k]) ?is = map (\<lambda>i. item ?ones [i, 0]) ?is"
      using w1 by (intro map_cong) (auto simp: item_fromfunction)
    have "item p (cell @ [0])
          = fdiv (fsum (map (\<lambda>i. item ?ones [i, 0]) ?is)) (real (?N - 1) * cell_volume e)"
      using p(3) c unfolding ee by blast
    also have "\<dots> = fdiv (fsum (map (\<lambda>i. item w [i, k]) ?is)) (real (?N - 1) * cell_volume e)"
      by (simp only: m)
    also have "\<dots> = item h (cell @ [k])"
      using hi[OF c] by (rule sym)
    finally show ?thesis by (rule sym)
  qed
  have "channel h k = Inr (fromfunction bins (\<lambda>idx. item h (idx @ [k])))"
    using r(7) assms(2) by (simp add: channel_def)
  also have "fromfunction bins (\<lambda>idx. item h (idx @ [k]))
             = fromfunction bins (\<lambda>idx. item p (idx @ [0]))"
    using eq by (intro fromfunction_cong) simp
  also have "Inr (fromfunction bins (\<lambda>idx. item p (idx @ [0]))) = channel p 0"
    using p(2) by (simp add: channel_def)
  finally have "channel h k = channel p 0" .
  with r(1,3,6) w1 p(1) ee show ?thesis by blast
qed

theorem zero_power_column_plain_histogram_witness:
  "\<exists>weights hist edges plain.
      kmc_weights \<lparr>shape = [4, 2], data = [0, 0, 1, 2, 3, 3, 2, 5]\<rparr>
        \<lparr>shape = [2, 3], data = [0, 1, 2, 0, 0, 1]\<rparr> = Inr weights
    \<and> item weights [0, 0] = Fin 1 \<and> item weights [1, 0] = Fin 1 \<and> item weights [2, 0] = Fin 1
    \<and> kmc_histogram \<lparr>shape = [4, 2], data = [0, 0, 1, 2, 3, 3, 2, 5]\<rparr> [2, 3]
        \<lparr>shape = [2, 3], data = [0, 1, 2, 0, 0, 1]\<rparr> = Inr (hist, edges)
    \<and> histogramdd \<lparr>shape = [3, 2], data = [1, 2, 3, 3, 2, 5]\<rparr> [2, 3]
        \<lparr>shape = [3, 1], data = [Fin 1, Fin 1, Fin 1]\<rparr> = Inr (plain, edges)
    \<and> channel hist 0 = channel plain 0"
proof -
  let ?ts = "\<lparr>shape = [4, 2], data = [0, 0, 1, 2, 3, 3, 2, 5 :: real]\<rparr>"
  let ?pw = "\<lparr>shape = [2, 3], data = [0, 1, 2, 0, 0, 1 :: int]\<rparr>"
  have v: "valid_shapes ?ts [2, 3] ?pw"
    by code_simp
  have k: "0 < shape ?pw ! 1" by simp
  have z: "\<forall>d < shape ?ts ! 1. item ?pw [d, 0] = 0"
    by (simp add: item_def less_Suc_eq numeral_2_eq_2)
  have s: "drop_first ?ts = Inr \<lparr>shape = [3, 2], data = [1, 2, 3, 3, 2, 5]\<rparr>"
    by code_simp
  have o: "fromfunction [shape ?ts ! 0 - 1, 1] (\<lambda>idx. Fin 1)
           = \<lparr>shape = [3, 1], data = [Fin 1, Fin 1, Fin 1]\<rparr>"
    by code_simp
  from zero_power_column_plain_histogram[OF v k z] s o
  obtain weights hist edges plain where
    r: "kmc_weights ?ts ?pw = Inr weights"
       "\<forall>i < 3. item weights [i, 0] = Fin 1"
       "kmc_histogram ?ts [2, 3] ?pw = Inr (hist, edges)"
       "histogramdd \<lparr>shape = [3, 2], data = [1, 2, 3, 3, 2, 5]\<rparr> [2, 3]
          \<lparr>shape = [3, 1], data = [Fin 1, Fin 1, Fin 1]\<rparr> = Inr (plain, edges)"
       "channel hist 0 = channel plain 0"
    by auto
  from r(2) have "item weights [0, 0] = Fin 1" "item weights [1, 0] = Fin 1"
    "item weights [2, 0] = Fin 1" by simp_all
  with r(1,3,4,5) show ?thesis by blast
qed

text \<open>
  C9 as stated fails: in the powers \<open>[[0, 0], [1, 1]]\<close> row 0 is entirely zero, and
  with the increments \<open>(1, 2)\<close> and \<open>(2, 1)\<close> the weights of channel 0 are 2 and 1:
  the code multiplies over column 0, which is \<open>(0, 1)\<close>.
\<close>

theorem zero_power_column_plain_histogram_counterexample:
  "item \<lparr>shape = [2, 2], data = [0, 0, 1, 1 :: int]\<rparr> [0, 0] = 0
   \<and> item \<lparr>shape = [2, 2], data = [0, 0, 1, 1 :: int]\<rparr> [0, 1] = 0
   \<and> kmc_weights \<lparr>shape = [3, 2], data = [0, 0, 1, 2, 3, 3]\<rparr>
         \<lparr>shape = [2, 2], data = [0, 0, 1, 1]\<rparr>
       = Inr \<lparr>shape = [2, 2], data = [Fin 2, Fin 2, Fin 1, Fin 1]\<rparr>
   \<and> item \<lparr>shape = [2, 2], data = [Fin 2, Fin 2, Fin 1, Fin 1]\<rparr> [0, 0] \<noteq> Fin 1"
  by code_simp

text \<open>
  C6, as the code has it. For every valid input with a non-degenerate kernel and every
  channel index \<open>k\<close>, output channel \<open>k\<close> is \<open>convolve(kernel_, hist[..., k], mode='same')\<close>:
  the centred linear convolution of the normalised kernel field with histogram channel
  \<open>k\<close> alone, the histogram read as zero outside its domain. Its shape is the shape of
  the kernel field, \<open>(bins[0] + 1, ..., bins[D-1] + 1)\<close>, not the shape \<open>bins\<close> of the
  histogram channel; the entry at \<open>n\<close> is the full convolution at \<open>n + (bins - 1) // 2\<close>.
  No other channel enters, and the \<open>K\<close> results are stacked along a new last axis.
\<close>

theorem channels_convolved_independently:
  assumes "valid_shapes timeseries bins powers"
    and "kernel_sized timeseries bins kernel_fn bw powers"
    and "kernel_sum timeseries bins kernel_fn bw powers \<noteq> 0"
    and "k < shape powers ! 1"
  shows "\<exists>hist edges kernel' res hk ck.
      kmc_histogram timeseries bins powers = Inr (hist, edges)
    \<and> kmc_kernel edges kernel_fn bw = Inr kernel'
    \<and> kmc_kernel_estimator timeseries bins kernel_fn bw powers = Inr (res, edges)
    \<and> shape res = map (\<lambda>b. b + 1) bins @ [shape powers ! 1]
    \<and> channel hist k = Inr hk \<and> shape hk = bins
    \<and> convolve_same kernel' hk = Inr ck
    \<and> channel res k = Inr ck
    \<and> shape ck = map (\<lambda>b. b + 1) bins
    \<and> (\<forall>n. list_all2 (<) n (map (\<lambda>b. b + 1) bins) \<longrightarrow>
          item ck n = zero_padded_convolution_at kernel' hk
                        (map int (map2 (+) n (map (\<lambda>b. (b - 1) div 2) bins))))"
proof -
  let ?K = "shape powers ! 1"
  from kmc_histogram_runs[OF assms(1)] obtain hist edges where
    h: "kmc_histogram timeseries bins powers = Inr (hist, edges)" by blast
  from kmc_kernel_runs[OF assms(1,2) h] obtain mesh where
    m: "kmc_kernel edges kernel_fn bw
        = Inr (normalise \<lparr>shape = map Suc bins, data = data (kernel_fn mesh bw)\<rparr>)"
       "length (data (kernel_fn mesh bw)) = prod_list (map Suc bins)"
       "kernel_sum timeseries bins kernel_fn bw powers = sum_list (data (kernel_fn mesh bw))"
    by blast
  let ?k = "normalise \<lparr>shape = map Suc bins, data = data (kernel_fn mesh bw)\<rparr>"
  have sk: "shape ?k = map Suc bins" by simp
  have wk: "wf_array ?k" using m(2) by (simp add: wf_array_def normalise_def)
  have fk: "\<forall>x\<in>set (data ?k). x \<noteq> NonFin"
    using m(3) assms(3) by (intro normalise_finite) simp
  from estimator_runs[OF assms(1) h m(1) sk] obtain kmc res where
    r: "\<forall>k < ?K. \<exists>hk. channel hist k = Inr hk \<and> shape hk = bins
            \<and> convolve_same ?k hk = Inr (kmc ! k) \<and> shape (kmc ! k) = map Suc bins"
       "kmc_kernel_estimator timeseries bins kernel_fn bw powers = Inr (res, edges)"
       "shape res = map Suc bins @ [?K]"
       "\<forall>k < ?K. channel res k = Inr (kmc ! k)"
    by blast
  from r(1) assms(4) obtain hk where
    hk: "channel hist k = Inr hk" "shape hk = bins"
        "convolve_same ?k hk = Inr (kmc ! k)" "shape (kmc ! k) = map Suc bins"
    by blast
  have len: "length (shape hk) = length (shape ?k)" using hk(2) by simp
  have ck: "kmc ! k = fromfunction (shape ?k)
                  (\<lambda>n. full_convolution_at ?k hk
                         (map2 (+) n (map (\<lambda>s. (s - 1) div 2) (shape hk))))"
    using hk(3) len by (simp add: convolve_same_def)
  have it: "item (kmc ! k) n = zero_padded_convolution_at ?k hk
                        (map int (map2 (+) n (map (\<lambda>b. (b - 1) div 2) bins)))"
    if n: "list_all2 (<) n (map Suc bins)" for n
  proof -
    have ln: "length n = length bins" using n by (auto dest: list_all2_lengthD)
    have "item (kmc ! k) n
          = full_convolution_at ?k hk (map2 (+) n (map (\<lambda>s. (s - 1) div 2) bins))"
      using n hk(2) by (simp add: ck item_fromfunction)
    also have "\<dots> = zero_padded_convolution_at ?k hk
                        (map int (map2 (+) n (map (\<lambda>b. (b - 1) div 2) bins)))"
      using ln len by (intro full_convolution_zero_padded[OF wk fk]) simp_all
    finally show ?thesis .
  qed
  have cr: "channel res k = Inr (kmc ! k)" using r(4) assms(4) by blast
  have S: "map (\<lambda>b. b + 1) bins = map Suc bins" by simp
  show ?thesis
    unfolding S using h m(1) r(2,3) hk it cr by blast
qed

theorem channels_convolved_independently_witness:
  "\<exists>hist edges kernel' res hk ck.
      kmc_histogram \<lparr>shape = [3, 1], data = [0, 1, 3]\<rparr> [2]
        \<lparr>shape = [1, 2], data = [0, 1]\<rparr> = Inr (hist, edges)
    \<and> kmc_kernel edges uniform_kernel 1 = Inr kernel'
    \<and> kmc_kernel_estimator \<lparr>shape = [3, 1], data = [0, 1, 3]\<rparr> [2] uniform_kernel 1
        \<lparr>shape = [1, 2], data = [0, 1]\<rparr> = Inr (res, edges)
    \<and> channel hist 1 = Inr hk \<and> hk = \<lparr>shape = [2], data = [Fin (1 / 2), Fin 1]\<rparr>
    \<and> channel res 1 = Inr ck \<and> shape ck = [3]
    \<and> item ck [2] = zero_padded_convolution_at kernel' hk [2]
    \<and> item ck [2] = Fin (1 / 2)"
proof -
  let ?ts = "\<lparr>shape = [3, 1], data = [0, 1, 3 :: real]\<rparr>"
  let ?pw = "\<lparr>shape = [1, 2], data = [0, 1 :: int]\<rparr>"
  have v: "valid_shapes ?ts [2] ?pw" by code_simp
  have s: "kernel_sized ?ts [2] uniform_kernel 1 ?pw" by code_simp
  have z: "kernel_sum ?ts [2] uniform_kernel 1 ?pw \<noteq> 0" by code_simp
  have k: "1 < shape ?pw ! 1" by simp
  have e: "kmc_histogram ?ts [2] ?pw
           = Inr (\<lparr>shape = [2, 2], data = [Fin (1 / 2), Fin (1 / 2), Fin (1 / 2), Fin 1]\<rparr>,
                  [[1, 2, 3]])"
    by code_simp
  have c: "channel \<lparr>shape = [2, 2], data = [Fin (1 / 2), Fin (1 / 2), Fin (1 / 2), Fin 1]\<rparr> 1
           = Inr \<lparr>shape = [2], data = [Fin (1 / 2), Fin 1]\<rparr>"
    by code_simp
  have kk: "kmc_kernel [[1, 2, 3]] uniform_kernel 1
            = Inr \<lparr>shape = [3], data = [Fin (1 / 3), Fin (1 / 3), Fin (1 / 3)]\<rparr>"
    by code_simp
  have zp: "zero_padded_convolution_at
              \<lparr>shape = [3], data = [Fin (1 / 3), Fin (1 / 3), Fin (1 / 3)]\<rparr>
              \<lparr>shape = [2], data = [Fin (1 / 2), Fin 1]\<rparr> [2] = Fin (1 / 2)"
    by code_simp
  from channels_convolved_independently[OF v s z k] e c kk
  obtain res ck where
    r: "kmc_kernel_estimator ?ts [2] uniform_kernel 1 ?pw = Inr (res, [[1, 2, 3]])"
       "channel res 1 = Inr ck" "shape ck = [3]"
       "\<forall>n. list_all2 (<) n [3] \<longrightarrow>
          item ck n = zero_padded_convolution_at
              \<lparr>shape = [3], data = [Fin (1 / 3), Fin (1 / 3), Fin (1 / 3)]\<rparr>
              \<lparr>shape = [2], data = [Fin (1 / 2), Fin 1]\<rparr>
              (map int (map2 (+) n (map (\<lambda>b. (b - 1) div 2) [2])))"
    by auto
  have "item ck [2] = zero_padded_convolution_at
              \<lparr>shape = [3], data = [Fin (1 / 3), Fin (1 / 3), Fin (1 / 3)]\<rparr>
              \<lparr>shape = [2], data = [Fin (1 / 2), Fin 1]\<rparr> [2]"
    using r(4)[rule_format, of "[2]"] by simp
  with e c kk r(1,2,3) zp show ?thesis by simp
qed

text \<open>
  C6 as stated fails in the output shape: for \<open>bins = [2]\<close> the histogram channel has
  shape \<open>(2)\<close> and the output channel has shape \<open>(3)\<close>.
\<close>

theorem channels_convolved_independently_counterexample:
  "\<exists>hist edges res hk ck.
      kmc_histogram \<lparr>shape = [3, 1], data = [0, 1, 3]\<rparr> [2] \<lparr>shape = [1, 1], data = [1]\<rparr>
        = Inr (hist, edges)
    \<and> channel hist 0 = Inr hk \<and> shape hk = [2]
    \<and> kmc_kernel_estimator \<lparr>shape = [3, 1], data = [0, 1, 3]\<rparr> [2] uniform_kernel 1
        \<lparr>shape = [1, 1], data = [1]\<rparr> = Inr (res, edges)
    \<and> channel res 0 = Inr ck \<and> shape ck = [3] \<and> shape ck \<noteq> shape hk"
proof -
  have a: "kmc_histogram \<lparr>shape = [3, 1], data = [0, 1, 3]\<rparr> [2] \<lparr>shape = [1, 1], data = [1]\<rparr>
     = Inr (\<lparr>shape = [2, 1], data = [Fin (1 / 2), Fin 1]\<rparr>, [[1, 2, 3]])"
    by code_simp
  have b: "channel \<lparr>shape = [2, 1], data = [Fin (1 / 2), Fin 1]\<rparr> 0
     = Inr \<lparr>shape = [2], data = [Fin (1 / 2), Fin 1]\<rparr>"
    by code_simp
  have c: "kmc_kernel_estimator \<lparr>shape = [3, 1], data = [0, 1, 3]\<rparr> [2] uniform_kernel 1
        \<lparr>shape = [1, 1], data = [1]\<rparr>
     = Inr (\<lparr>shape = [3, 1], data = [Fin (1 / 6), Fin (1 / 2), Fin (1 / 2)]\<rparr>, [[1, 2, 3]])"
    by code_simp
  have d: "channel \<lparr>shape = [3, 1], data = [Fin (1 / 6), Fin (1 / 2), Fin (1 / 2)]\<rparr> 0
     = Inr \<lparr>shape = [3], data = [Fin (1 / 6), Fin (1 / 2), Fin (1 / 2)]\<rparr>"
    by code_simp
  show ?thesis unfolding a c using b d by simp
qed

text \<open>
  C7, as the code has it. The estimator validates nothing itself. For a timeseries of
  shape \<open>(N, D)\<close> and a powers matrix of shape \<open>(A, K)\<close>, each of element type
  \<open>float64\<close> or \<open>int64\<close>, the computation of the weights, which comes before any
  histogram or convolution work, fails in two cases, and then the call returns no result:
  NumPy's broadcasting error when \<open>A\<close> is neither \<open>D\<close> nor 1 and \<open>D\<close> is not 1; and,
  when the shapes broadcast, NumPy's error for an integer to a negative integer power,
  when timeseries and powers are both integer arrays, \<open>N \<ge> 2\<close>, \<open>D \<ge> 1\<close> and some
  power is negative. In every other case the weights are computed, an \<open>(N-1, K)\<close> array,
  whatever the number of samples, the column count and the values of the powers; and if
  moreover \<open>N \<ge> 2\<close>, \<open>D \<ge> 1\<close>, \<open>K \<ge> 1\<close>, there are \<open>D\<close> positive bin counts and the
  kernel returns one scalar per mesh point, the call returns a result.
\<close>

theorem only_broadcasting_is_checked:
  assumes "shape_of timeseries = [N, D]" and "shape_of powers = [A, K]"
  shows "(A \<noteq> D \<and> A \<noteq> 1 \<and> D \<noteq> 1 \<longrightarrow>
            kmc_weights_typed timeseries powers = Inl BroadcastError
          \<and> kmc_kernel_estimator_typed timeseries bins kernel_fn bw powers
            = Inl BroadcastError)
       \<and> ((A = D \<or> A = 1 \<or> D = 1) \<and> negative_integer_power timeseries powers \<longrightarrow>
            kmc_weights_typed timeseries powers = Inl NegativePowerError
          \<and> kmc_kernel_estimator_typed timeseries bins kernel_fn bw powers
            = Inl NegativePowerError)
       \<and> ((A = D \<or> A = 1 \<or> D = 1) \<and> \<not> negative_integer_power timeseries powers \<longrightarrow>
            (\<exists>weights. kmc_weights_typed timeseries powers = Inr weights
                      \<and> shape weights = [N - 1, K]))
       \<and> ((A = D \<or> A = 1 \<or> D = 1) \<and> \<not> negative_integer_power timeseries powers
          \<and> 2 \<le> N \<and> 1 \<le> D \<and> 1 \<le> K \<and> length bins = D \<and> list_all (\<lambda>b. 1 \<le> b) bins
          \<and> kernel_sized_typed timeseries bins kernel_fn bw powers \<longrightarrow>
            (\<exists>res edges.
               kmc_kernel_estimator_typed timeseries bins kernel_fn bw powers = Inr (res, edges)
             \<and> shape res = map (\<lambda>b. b + 1) bins @ [K]))"
proof -
  note w = kmc_weights_typed_cases[OF assms]
  have e: "kmc_kernel_estimator_typed timeseries bins kernel_fn bw powers = Inl err"
    if "kmc_weights_typed timeseries powers = Inl err" for err
    using that by (simp add: kmc_kernel_estimator_typed_def kmc_histogram_typed_def)
  have 1: "kmc_weights_typed timeseries powers = Inl BroadcastError
         \<and> kmc_kernel_estimator_typed timeseries bins kernel_fn bw powers = Inl BroadcastError"
    if "A \<noteq> D \<and> A \<noteq> 1 \<and> D \<noteq> 1"
    using w(1)[OF that] e by blast
  have 2: "kmc_weights_typed timeseries powers = Inl NegativePowerError
         \<and> kmc_kernel_estimator_typed timeseries bins kernel_fn bw powers
           = Inl NegativePowerError"
    if "A = D \<or> A = 1 \<or> D = 1" "negative_integer_power timeseries powers"
    using w(2)[OF that] e by blast
  have 3: "\<exists>weights. kmc_weights_typed timeseries powers = Inr weights
                   \<and> shape weights = [N - 1, K]"
    if "A = D \<or> A = 1 \<or> D = 1" "\<not> negative_integer_power timeseries powers"
    using w(3)[OF that] .
  have 4: "\<exists>res edges.
             kmc_kernel_estimator_typed timeseries bins kernel_fn bw powers = Inr (res, edges)
           \<and> shape res = map (\<lambda>b. b + 1) bins @ [K]"
    if "A = D \<or> A = 1 \<or> D = 1" "\<not> negative_integer_power timeseries powers"
      "1 \<le> D" "1 \<le> K" "length bins = D"
      "kernel_sized_typed timeseries bins kernel_fn bw powers"
    using estimator_typed_runs[OF assms that(5,3,4,2,6,1)] by auto
  from 1 2 3 4 show ?thesis by blast
qed


theorem only_broadcasting_is_checked_witness:
  "kmc_weights_typed (I64 \<lparr>shape = [3, 2], data = [0, 0, 1, 2, 3, 3]\<rparr>)
     (I64 \<lparr>shape = [3, 2], data = [0, 0, 1, 1, 2, 2]\<rparr>) = Inl BroadcastError
   \<and> kmc_kernel_estimator_typed (I64 \<lparr>shape = [3, 2], data = [0, 0, 1, 2, 3, 3]\<rparr>) [2, 2]
       uniform_kernel 1 (I64 \<lparr>shape = [3, 2], data = [0, 0, 1, 1, 2, 2]\<rparr>)
     = Inl BroadcastError
   \<and> kmc_weights_typed (I64 \<lparr>shape = [3, 1], data = [0, 1, 3]\<rparr>)
       (I64 \<lparr>shape = [1, 1], data = [- 1]\<rparr>) = Inl NegativePowerError
   \<and> kmc_kernel_estimator_typed (I64 \<lparr>shape = [3, 1], data = [0, 1, 3]\<rparr>) [2]
       uniform_kernel 1 (I64 \<lparr>shape = [1, 1], data = [- 1]\<rparr>) = Inl NegativePowerError
   \<and> (\<exists>weights. kmc_weights_typed (F64 \<lparr>shape = [3, 1], data = [0, 1, 3]\<rparr>)
         (F64 \<lparr>shape = [1, 1], data = [1 / 2]\<rparr>) = Inr weights \<and> shape weights = [2, 1])
   \<and> (\<exists>res edges. kmc_kernel_estimator_typed (F64 \<lparr>shape = [3, 1], data = [0, 1, 3]\<rparr>) [2]
         uniform_kernel 1 (F64 \<lparr>shape = [1, 1], data = [1 / 2]\<rparr>) = Inr (res, edges)
       \<and> shape res = [3, 1])"
proof -
  have a: "shape_of (I64 \<lparr>shape = [3, 2], data = [0, 0, 1, 2, 3, 3]\<rparr>) = [3, 2]"
    and b: "shape_of (I64 \<lparr>shape = [3, 2], data = [0, 0, 1, 1, 2, 2]\<rparr>) = [3, 2]"
    and c: "shape_of (I64 \<lparr>shape = [3, 1], data = [0, 1, 3]\<rparr>) = [3, 1]"
    and d: "shape_of (I64 \<lparr>shape = [1, 1], data = [- 1]\<rparr>) = [1, 1]"
    and f: "shape_of (F64 \<lparr>shape = [3, 1], data = [0, 1, 3]\<rparr>) = [3, 1]"
    and g: "shape_of (F64 \<lparr>shape = [1, 1], data = [1 / 2]\<rparr>) = [1, 1]"
    by simp_all
  have n: "negative_integer_power (I64 \<lparr>shape = [3, 1], data = [0, 1, 3]\<rparr>)
             (I64 \<lparr>shape = [1, 1], data = [- 1]\<rparr>)"
    by code_simp
  have k: "kernel_sized_typed (F64 \<lparr>shape = [3, 1], data = [0, 1, 3]\<rparr>) [2] uniform_kernel 1
             (F64 \<lparr>shape = [1, 1], data = [1 / 2]\<rparr>)"
    by code_simp
  from only_broadcasting_is_checked[OF a b, of "[2, 2]" uniform_kernel 1]
    only_broadcasting_is_checked[OF c d, of "[2]" uniform_kernel 1] n
    only_broadcasting_is_checked[OF f g, of "[2]" uniform_kernel 1] k
  show ?thesis by simp
qed

text \<open>
  C7 as stated fails. For a float timeseries, a powers matrix with the entry \<open>-1\<close> is
  accepted, and so are a powers matrix with two columns for a timeseries of dimensionality
  1 and a powers matrix with the entry \<open>1/2\<close>: each call returns a result. The weights
  of a timeseries of one sample are computed, an empty array, and nothing is raised.
\<close>

theorem only_broadcasting_is_checked_counterexample:
  "(\<exists>res edges.
      kmc_kernel_estimator_typed (F64 \<lparr>shape = [3, 1], data = [0, 1, 3]\<rparr>) [2]
        uniform_kernel 1 (I64 \<lparr>shape = [1, 1], data = [- 1]\<rparr>) = Inr (res, edges))
   \<and> (\<exists>res edges.
      kmc_kernel_estimator_typed (F64 \<lparr>shape = [3, 1], data = [0, 1, 3]\<rparr>) [2]
        uniform_kernel 1 (I64 \<lparr>shape = [1, 2], data = [0, 1]\<rparr>) = Inr (res, edges)
      \<and> shape res = [3, 2])
   \<and> (\<exists>res edges.
      kmc_kernel_estimator_typed (F64 \<lparr>shape = [3, 1], data = [0, 1, 3]\<rparr>) [2]
        uniform_kernel 1 (F64 \<lparr>shape = [1, 1], data = [1 / 2]\<rparr>) = Inr (res, edges))
   \<and> kmc_weights_typed (F64 \<lparr>shape = [1, 1], data = [0]\<rparr>)
        (I64 \<lparr>shape = [1, 1], data = [1]\<rparr>) = Inr \<lparr>shape = [0, 1], data = []\<rparr>"
proof -
  have a: "kmc_kernel_estimator_typed (F64 \<lparr>shape = [3, 1], data = [0, 1, 3]\<rparr>) [2]
      uniform_kernel 1 (I64 \<lparr>shape = [1, 1], data = [- 1]\<rparr>)
     = Inr (\<lparr>shape = [3, 1], data = [Fin (1 / 6), Fin (1 / 4), Fin (1 / 4)]\<rparr>, [[1, 2, 3]])"
    by code_simp
  have b: "kmc_kernel_estimator_typed (F64 \<lparr>shape = [3, 1], data = [0, 1, 3]\<rparr>) [2]
      uniform_kernel 1 (I64 \<lparr>shape = [1, 2], data = [0, 1]\<rparr>)
     = Inr (\<lparr>shape = [3, 2],
             data = [Fin (1 / 6), Fin (1 / 6), Fin (1 / 3), Fin (1 / 2), Fin (1 / 3),
                     Fin (1 / 2)]\<rparr>, [[1, 2, 3]])"
    by code_simp
  have k: "kernel_sized_typed (F64 \<lparr>shape = [3, 1], data = [0, 1, 3]\<rparr>) [2] uniform_kernel 1
             (F64 \<lparr>shape = [1, 1], data = [1 / 2]\<rparr>)"
    by code_simp
  have c: "\<exists>res edges.
      kmc_kernel_estimator_typed (F64 \<lparr>shape = [3, 1], data = [0, 1, 3]\<rparr>) [2]
        uniform_kernel 1 (F64 \<lparr>shape = [1, 1], data = [1 / 2]\<rparr>) = Inr (res, edges)"
    using estimator_typed_runs[of "F64 \<lparr>shape = [3, 1], data = [0, 1, 3]\<rparr>" 3 1
        "F64 \<lparr>shape = [1, 1], data = [1 / 2]\<rparr>" 1 1 "[2]" uniform_kernel 1] k
    by auto
  have d: "kmc_weights_typed (F64 \<lparr>shape = [1, 1], data = [0]\<rparr>)
        (I64 \<lparr>shape = [1, 1], data = [1]\<rparr>) = Inr \<lparr>shape = [0, 1], data = []\<rparr>"
    by code_simp
  show ?thesis unfolding a b using c d by simp
qed




end
